theory Spec2Isabelle
  imports Complex_Main "HOL-Library.Multiset"
begin

section \<open>The lattice object\<close>

text \<open>
  \<^verbatim>\<open>src/main.cpp\<close> holds two programs: the single-process driver (\<^verbatim>\<open>initialise\<close>,
  \<^verbatim>\<open>main\<close>) and the message-passing one (\<^verbatim>\<open>master_to_slaves_sync\<close>, \<^verbatim>\<open>simulate\<close>,
  \<^verbatim>\<open>initialise\<close>, \<^verbatim>\<open>main\<close>). Both use the class \<^verbatim>\<open>Surface\<close> of \<^verbatim>\<open>surface.h\<close>, which
  is not among the sources. Its fields are the ones the two programs read and write.
  The arrays \<^verbatim>\<open>surface\<close>, \<^verbatim>\<open>avgEnergy\<close> and \<^verbatim>\<open>avgMag\<close> are reached through pointers
  (\<^verbatim>\<open>lattice.surface[y]\<close> is handed to \<^verbatim>\<open>MPI_Recv\<close> as a buffer), so a callee that
  takes a \<^verbatim>\<open>Surface\<close> by value still writes the caller's arrays; the model passes the
  object through every call and returns it. The statistics arrays are maps from the
  index written to the value stored there.
\<close>

type_synonym row = "int list"
type_synonym grid = "row list"

record 'g Surface =
  name :: string
  loops :: int
  lsize :: int
  temperature :: real
  surface :: grid
  avgEnergy :: "nat \<rightharpoonup> real"
  avgMag :: "nat \<rightharpoonup> real"
  complete :: bool
  out :: bool
  outName :: string
  rng :: 'g

text \<open>
  The member functions of \<^verbatim>\<open>Surface\<close> that the programs call are parameters of the
  model. Each may read the whole object; \<^verbatim>\<open>clear\<close> and \<^verbatim>\<open>calculate_spin\<close> return the
  new cell grid and the new state of the random source, the two statistics are pure
  reads. The constructor takes the rank of the process that runs it as its first
  argument, since every process of the group constructs its own object.
\<close>

record 'g methods =
  construct :: "nat \<Rightarrow> string \<Rightarrow> int \<Rightarrow> int \<Rightarrow> real \<Rightarrow> 'g Surface"
  clear :: "'g Surface \<Rightarrow> grid \<times> 'g"
  calculate_energy :: "'g Surface \<Rightarrow> real"
  calculate_magnetism :: "'g Surface \<Rightarrow> real"
  calculate_spin :: "nat \<times> nat \<Rightarrow> 'g Surface \<Rightarrow> grid \<times> 'g"

definition EXIT_SUCCESS :: int where
  "EXIT_SUCCESS = 0"

definition EXIT_FAILURE :: int where
  "EXIT_FAILURE = 1"

definition do_clear :: "'g methods \<Rightarrow> 'g Surface \<Rightarrow> 'g Surface" where
  "do_clear M l = (let (g, r) = clear M l in l\<lparr>surface := g, rng := r\<rparr>)"

definition do_spin :: "'g methods \<Rightarrow> nat \<times> nat \<Rightarrow> 'g Surface \<Rightarrow> 'g Surface" where
  "do_spin M c l = (let (g, r) = calculate_spin M c l in l\<lparr>surface := g, rng := r\<rparr>)"

section \<open>The process group\<close>

text \<open>
  A message of the gather phase: \<^verbatim>\<open>MPI_Send(lattice.surface[j], lattice.size, MPI_INT, 0, j, ...)\<close>
  carries row \<open>j\<close> under tag \<open>j\<close> from the sending rank to rank 0.
\<close>

record msg =
  tag :: nat
  source :: nat
  payload :: row

text \<open>
  The state of the whole group: the object of rank 0, the objects of ranks
  \<open>1 .. world_size - 1\<close> (rank \<open>r\<close> at position \<open>r - 1\<close>), the gather messages sent and
  not yet received, and the objects handed to \<^verbatim>\<open>save\<close> so far.
\<close>

record 'g world =
  master :: "'g Surface"
  slaves :: "'g Surface list"
  inflight :: "msg list"
  saved :: "'g Surface list"

record globals =
  world_size :: int
  rows_per_slave :: int

text \<open>Division of C++ \<^verbatim>\<open>int\<close>s truncates towards zero.\<close>

definition tdiv :: "int \<Rightarrow> int \<Rightarrow> int" where
  "tdiv a b = sgn a * sgn b * (\<bar>a\<bar> div \<bar>b\<bar>)"

text \<open>
  The first two lines of \<^verbatim>\<open>simulate\<close>: the rows of the calling rank. The values are
  C++ \<^verbatim>\<open>int\<close>s; for a rank below \<^verbatim>\<open>world_size\<close> and \<^verbatim>\<open>rows_per_slave = rows / (world_size - 1)\<close>
  both products lie between \<open>- rows\<close> and \<open>rows\<close>, so nothing wraps around and the
  model computes in the integers.
\<close>

definition row_range :: "int \<Rightarrow> int \<Rightarrow> int \<times> int" where
  "row_range my_rank rps =
     (let start = (my_rank - 1) * rps;
          finish = start + rps
      in (start, finish))"

text \<open>
  \<^verbatim>\<open>master_to_slaves_sync\<close>: rank 0 sends each of its rows, tagged with the row index, to
  every other rank; every other rank receives rows \<open>0 .. size - 1\<close> from rank 0 into its
  own grid. Source and tag are both fixed at the receiver, so the exchange has a single
  outcome, written here as the receiver's loop.
\<close>

definition recv_rows :: "grid \<Rightarrow> 'g Surface \<Rightarrow> 'g Surface" where
  "recv_rows mg l =
     l\<lparr>surface := fold (\<lambda>y g. g[y := mg ! y]) [0..<nat (lsize l)] (surface l)\<rparr>"

definition master_to_slaves_sync :: "'g world \<Rightarrow> 'g world" where
  "master_to_slaves_sync w =
     w\<lparr>slaves := map (recv_rows (surface (master w))) (slaves w)\<rparr>"

text \<open>
  The \<^verbatim>\<open>else\<close> branch of the sweep loop, run by a rank other than 0: every cell of row
  \<open>j\<close> is updated in place, column by column, then the row is sent to rank 0.
\<close>

definition compute_row :: "'g methods \<Rightarrow> nat \<Rightarrow> 'g Surface \<Rightarrow> 'g Surface" where
  "compute_row M j l = fold (\<lambda>k. do_spin M (k, j)) [0..<nat (lsize l)] l"

fun slave_rows :: "'g methods \<Rightarrow> nat \<Rightarrow> nat list \<Rightarrow> 'g Surface \<Rightarrow> 'g Surface \<times> msg list" where
  "slave_rows M r [] l = (l, [])"
| "slave_rows M r (j # js) l =
     (let l1 = compute_row M j l;
          m = \<lparr>tag = j, source = r, payload = surface l1 ! j\<rparr>;
          (l2, ms) = slave_rows M r js l1
      in (l2, m # ms))"

definition slave_sweep :: "'g methods \<Rightarrow> globals \<Rightarrow> nat \<Rightarrow> 'g Surface \<Rightarrow> 'g Surface \<times> msg list" where
  "slave_sweep M G r l =
     (let (start, finish) = row_range (int r) (rows_per_slave G)
      in slave_rows M r [nat start..<nat finish] l)"

text \<open>
  \<^verbatim>\<open>MPI_Recv(..., MPI_ANY_SOURCE, y, ...)\<close> takes the first message with tag \<open>y\<close> out of
  those that have arrived. Every other rank has sent all its rows of the sweep before
  it waits for rank 0, so a tag that is absent from the pool never arrives: the receive
  blocks for ever, which is the value \<open>None\<close>.
\<close>

fun recv_any :: "nat \<Rightarrow> msg list \<Rightarrow> (row \<times> msg list) option" where
  "recv_any y [] = None"
| "recv_any y (m # ms) =
     (if tag m = y then Some (payload m, ms)
      else (case recv_any y ms of
              None \<Rightarrow> None
            | Some (r, rest) \<Rightarrow> Some (r, m # rest)))"

fun gather :: "nat list \<Rightarrow> grid \<Rightarrow> msg list \<Rightarrow> (grid \<times> msg list) option" where
  "gather [] g pool = Some (g, pool)"
| "gather (y # ys) g pool =
     (case recv_any y pool of
        None \<Rightarrow> None
      | Some (r, rest) \<Rightarrow> gather ys (g[y := r]) rest)"

text \<open>
  One pass of the loop body of \<^verbatim>\<open>simulate\<close>, for all ranks. Rank 0 stores the two
  statistics of its lattice at index \<open>i\<close> while every other rank updates and sends its
  rows; then rank 0 receives rows \<open>0 .. size - 1\<close> by tag from any source; then
  \<^verbatim>\<open>master_to_slaves_sync\<close> runs. \<open>arrive i\<close> is the order in which the messages in
  flight reach rank 0 during sweep \<open>i\<close>.
\<close>

definition record_stats :: "'g methods \<Rightarrow> nat \<Rightarrow> 'g Surface \<Rightarrow> 'g Surface" where
  "record_stats M i m =
     (let m1 = m\<lparr>avgEnergy := (avgEnergy m)(i \<mapsto> calculate_energy M m)\<rparr>
      in m1\<lparr>avgMag := (avgMag m1)(i \<mapsto> calculate_magnetism M m1)\<rparr>)"

definition slaves_compute :: "'g methods \<Rightarrow> globals \<Rightarrow> 'g Surface list \<Rightarrow> ('g Surface \<times> msg list) list" where
  "slaves_compute M G ls = map (\<lambda>(r, l). slave_sweep M G r l) (enumerate 1 ls)"

definition sweep ::
  "'g methods \<Rightarrow> globals \<Rightarrow> (nat \<Rightarrow> msg list \<Rightarrow> msg list) \<Rightarrow> nat \<Rightarrow> 'g world \<Rightarrow> 'g world option" where
  "sweep M G arrive i w =
     (let m = record_stats M i (master w);
          res = slaves_compute M G (slaves w);
          pool = arrive i (inflight w @ concat (map snd res))
      in case gather [0..<nat (lsize m)] (surface m) pool of
           None \<Rightarrow> None
         | Some (g, rest) \<Rightarrow>
             Some (master_to_slaves_sync
                    (w\<lparr>master := m\<lparr>surface := g\<rparr>, slaves := map fst res, inflight := rest\<rparr>)))"

text \<open>
  The loop \<^verbatim>\<open>for (int i = 0; i < lattice.loops; ++i)\<close> and the only \<^verbatim>\<open>return\<close> of
  \<^verbatim>\<open>simulate\<close>. Every process was constructed from the same command line, so all ranks
  run the same number of passes; a pass in which rank 0 blocks has no successor. A
  lattice is taken to have \<^verbatim>\<open>size\<close> rows of \<^verbatim>\<open>size\<close> cells, which is the constructor's
  business; the results below that read rows state it where they need it.
\<close>

fun sweeps ::
  "'g methods \<Rightarrow> globals \<Rightarrow> (nat \<Rightarrow> msg list \<Rightarrow> msg list) \<Rightarrow> nat list \<Rightarrow> 'g world \<Rightarrow> 'g world option" where
  "sweeps M G arrive [] w = Some w"
| "sweeps M G arrive (i # is) w =
     (case sweep M G arrive i w of
        None \<Rightarrow> None
      | Some w' \<Rightarrow> sweeps M G arrive is w')"

definition simulate ::
  "'g methods \<Rightarrow> globals \<Rightarrow> (nat \<Rightarrow> msg list \<Rightarrow> msg list) \<Rightarrow> 'g world \<Rightarrow> (int \<times> 'g world) option" where
  "simulate M G arrive w =
     (case sweeps M G arrive [0..<nat (loops (master w))] w of
        None \<Rightarrow> None
      | Some w' \<Rightarrow> Some (EXIT_SUCCESS, w'))"

text \<open>
  \<^verbatim>\<open>initialise\<close> of the message-passing program: rank 0 clears and saves its lattice,
  every rank runs \<^verbatim>\<open>simulate\<close>, rank 0 sets \<^verbatim>\<open>complete\<close> and saves again.
\<close>

definition clear_and_save :: "'g methods \<Rightarrow> 'g world \<Rightarrow> 'g world" where
  "clear_and_save M w =
     (let m1 = do_clear M (master w)
      in w\<lparr>master := m1, saved := saved w @ [m1]\<rparr>)"

definition initialise ::
  "'g methods \<Rightarrow> globals \<Rightarrow> (nat \<Rightarrow> msg list \<Rightarrow> msg list) \<Rightarrow> 'g world \<Rightarrow> (int \<times> 'g world) option" where
  "initialise M G arrive w =
     (case simulate M G arrive (clear_and_save M w) of
        None \<Rightarrow> None
      | Some (status, w2) \<Rightarrow>
          (let m3 = (master w2)\<lparr>complete := True\<rparr>
           in Some (status, w2\<lparr>master := m3, saved := saved w2 @ [m3]\<rparr>)))"

section \<open>The two entry points\<close>

text \<open>
  The command line after \<^verbatim>\<open>atoi\<close> and \<^verbatim>\<open>strtod\<close>: \<open>n_arg\<close> is \<^verbatim>\<open>atoi(argv[1])\<close>,
  \<open>rows_arg\<close> is \<^verbatim>\<open>atoi(argv[2])\<close>, \<open>temp_arg\<close> is \<^verbatim>\<open>strtod(argv[3], nullptr)\<close>.
\<close>

record args =
  argc :: int
  argv0 :: string
  n_arg :: int
  rows_arg :: int
  temp_arg :: real
  out_arg :: string

text \<open>
  How a run ends: a return from \<^verbatim>\<open>main\<close> before any lattice exists, with the status
  and the line printed; the integer division by zero of \<^verbatim>\<open>rows / (world_size - 1)\<close>
  (undefined behaviour, with the lattices already constructed); rank 0 blocked for ever
  in a receive; or a return of the status of \<^verbatim>\<open>initialise\<close>.
\<close>

datatype 'g outcome =
    Exit int string
  | DivByZero "'g world"
  | Blocked
  | Finished int "'g world"

definition new_lattice :: "'g methods \<Rightarrow> args \<Rightarrow> nat \<Rightarrow> 'g Surface" where
  "new_lattice M a r =
     (let l = construct M r (argv0 a) (n_arg a) (rows_arg a) (temp_arg a)
      in if argc a = 5 then l\<lparr>out := True, outName := out_arg a\<rparr> else l)"

text \<open>The objects that the processes of a group of \<open>ws\<close> ranks construct.\<close>

definition group :: "'g methods \<Rightarrow> int \<Rightarrow> args \<Rightarrow> 'g world" where
  "group M ws a =
     \<lparr>master = new_lattice M a 0,
      slaves = map (new_lattice M a) [1..<nat ws],
      inflight = [], saved = []\<rparr>"

definition main_mpi ::
  "'g methods \<Rightarrow> (nat \<Rightarrow> msg list \<Rightarrow> msg list) \<Rightarrow> int \<Rightarrow> args \<Rightarrow> 'g outcome" where
  "main_mpi M arrive ws a =
     (if argc a < 4 \<or> argc a > 5 then
        Exit EXIT_FAILURE ''Usage: ./ising n size temperature {output}''
      else if n_arg a \<le> 0 then
        Exit EXIT_FAILURE (CHR 0x27 # ''n'' @ CHR 0x27 # '' has to be a positive integer'')
      else if rows_arg a \<le> 0 then
        Exit EXIT_FAILURE (CHR 0x27 # ''rows'' @ CHR 0x27 # '' has to be a positive integer'')
      else if ws - 1 = 0 then DivByZero (group M ws a)
      else
        (let G = \<lparr>world_size = ws, rows_per_slave = tdiv (rows_arg a) (ws - 1)\<rparr>
         in case initialise M G arrive (master_to_slaves_sync (group M ws a)) of
              None \<Rightarrow> Blocked
            | Some (status, w') \<Rightarrow> Finished status w'))"

text \<open>
  The single-process program. Its \<^verbatim>\<open>simulate\<close> comes from \<^verbatim>\<open>sim_serial.h\<close>,
  \<^verbatim>\<open>sim_omp.h\<close> or \<^verbatim>\<open>sim_cuda.h\<close>, none of which is among the sources: it is the
  parameter \<open>sim\<close>.
\<close>

definition initialise_serial ::
  "'g methods \<Rightarrow> ('g Surface \<Rightarrow> int \<times> 'g Surface) \<Rightarrow> 'g Surface \<Rightarrow> int \<times> 'g world" where
  "initialise_serial M sim l =
     (let l1 = do_clear M l;
          (status, l2) = sim l1;
          l3 = l2\<lparr>complete := True\<rparr>
      in (status, \<lparr>master = l3, slaves = [], inflight = [], saved = [l1, l3]\<rparr>))"

definition main_serial ::
  "'g methods \<Rightarrow> ('g Surface \<Rightarrow> int \<times> 'g Surface) \<Rightarrow> args \<Rightarrow> 'g outcome" where
  "main_serial M sim a =
     (if argc a < 4 \<or> argc a > 5 then
        Exit EXIT_FAILURE ''Usage: ./ising n size temperature {output}''
      else if n_arg a \<le> 0 then
        Exit EXIT_FAILURE (CHR 0x27 # ''n'' @ CHR 0x27 # '' has to be a positive integer'')
      else
        (let (status, w) = initialise_serial M sim (new_lattice M a 0)
         in Finished status w))"

section \<open>The member functions of the lattice\<close>

text \<open>
  Modelled from the spec: \<^verbatim>\<open>Surface::calculate_spin\<close>, \<^verbatim>\<open>calculate_energy\<close>,
  \<^verbatim>\<open>calculate_magnetism\<close> and \<^verbatim>\<open>clear\<close> are declared in \<^verbatim>\<open>surface.h\<close>, which is not
  among the sources. The spin update rule follows section 4.2 of the specification: the
  four neighbours of a cell are taken with wrap-around, the energy change of a flip
  under the nearest-neighbour Hamiltonian with coupling 1 is twice the spin times the
  sum of its neighbours, a flip with \<open>\<Delta>E \<le> 0\<close> is accepted, and one with \<open>\<Delta>E > 0\<close>
  is accepted when the draw is below \<open>exp (- \<Delta>E / temperature)\<close>. The random source
  is a sequence of draws \<open>d\<close>; the state of the source is the position of the next draw.
\<close>

definition cell :: "grid \<Rightarrow> nat \<Rightarrow> nat \<Rightarrow> int" where
  "cell g x y = g ! y ! x"

definition neighbours :: "nat \<Rightarrow> grid \<Rightarrow> nat \<times> nat \<Rightarrow> int" where
  "neighbours n g c =
     (case c of (x, y) \<Rightarrow>
        cell g ((x + n - 1) mod n) y + cell g ((x + 1) mod n) y +
        cell g x ((y + n - 1) mod n) + cell g x ((y + 1) mod n))"

definition delta_E :: "nat \<Rightarrow> grid \<Rightarrow> nat \<times> nat \<Rightarrow> int" where
  "delta_E n g c = 2 * cell g (fst c) (snd c) * neighbours n g c"

definition accepted :: "real \<Rightarrow> int \<Rightarrow> real \<Rightarrow> bool" where
  "accepted T dE draw = (dE \<le> 0 \<or> draw < exp (- real_of_int dE / T))"

definition flipped :: "grid \<Rightarrow> nat \<times> nat \<Rightarrow> grid" where
  "flipped g c = (case c of (x, y) \<Rightarrow> g[y := (g ! y)[x := - cell g x y]])"

definition update :: "nat \<Rightarrow> real \<Rightarrow> grid \<Rightarrow> nat \<times> nat \<Rightarrow> real \<Rightarrow> grid" where
  "update n T g c draw = (if accepted T (delta_E n g c) draw then flipped g c else g)"

definition spec_spin :: "(nat \<Rightarrow> real) \<Rightarrow> nat \<times> nat \<Rightarrow> nat Surface \<Rightarrow> grid \<times> nat" where
  "spec_spin d c l =
     (update (nat (lsize l)) (temperature l) (surface l) c (d (rng l)), Suc (rng l))"

text \<open>A valid spin configuration: \<open>n\<close> rows of \<open>n\<close> spins, each \<open>1\<close> or \<open>- 1\<close>.\<close>

definition valid_spins :: "nat \<Rightarrow> grid \<Rightarrow> bool" where
  "valid_spins n g =
     (length g = n \<and> (\<forall>r \<in> set g. length r = n \<and> (\<forall>s \<in> set r. s = 1 \<or> s = - 1)))"

text \<open>
  Modelled from the spec (section 4.3): the energy is the sum of the nearest-neighbour
  interaction over the lattice, each edge counted once (a cell with its right and its
  lower neighbour); the magnetism is the absolute value of the sum of the spins divided
  by the number of cells.
\<close>

definition spec_energy :: "'g Surface \<Rightarrow> real" where
  "spec_energy l =
     (let n = nat (lsize l); g = surface l
      in real_of_int (- (\<Sum>y \<leftarrow> [0..<n]. \<Sum>x \<leftarrow> [0..<n].
           cell g x y * (cell g ((x + 1) mod n) y + cell g x ((y + 1) mod n)))))"

definition spec_magnetism :: "'g Surface \<Rightarrow> real" where
  "spec_magnetism l =
     (let n = nat (lsize l)
      in \<bar>real_of_int (\<Sum>r \<leftarrow> surface l. sum_list r)\<bar> / real (n * n))"

text \<open>
  Modelled from the spec (section 3, lifecycle): \<^verbatim>\<open>clear\<close> sets all spins to an initial
  configuration, here the uniform one of the specification's end-to-end scenario. The
  constructor is one possible constructor: it stores its arguments and allocates a
  zeroed grid and empty statistics; the random source of rank \<open>r\<close> starts at position
  \<open>100 * r\<close>.
\<close>

definition spec_clear :: "nat Surface \<Rightarrow> grid \<times> nat" where
  "spec_clear l = (replicate (nat (lsize l)) (replicate (nat (lsize l)) 1), rng l)"

definition zeroed :: "nat \<Rightarrow> string \<Rightarrow> int \<Rightarrow> int \<Rightarrow> real \<Rightarrow> nat Surface" where
  "zeroed r nm n sz T =
     \<lparr>name = nm, loops = n, lsize = sz, temperature = T,
      surface = replicate (nat sz) (replicate (nat sz) 0),
      avgEnergy = Map.empty, avgMag = Map.empty,
      complete = False, out = False, outName = [], rng = 100 * r\<rparr>"

definition spec_methods :: "(nat \<Rightarrow> real) \<Rightarrow> nat methods" where
  "spec_methods d =
     \<lparr>construct = zeroed, clear = spec_clear,
      calculate_energy = spec_energy, calculate_magnetism = spec_magnetism,
      calculate_spin = spec_spin d\<rparr>"

section \<open>Derived notions\<close>

text \<open>
  The rows that the loop \<^verbatim>\<open>for (int j = start; j < finish; ++j)\<close> of rank \<open>r\<close> visits,
  with \<^verbatim>\<open>rows_per_slave = rows / (world_size - 1)\<close> as \<^verbatim>\<open>main\<close> sets it.
\<close>

definition assigned :: "int \<Rightarrow> int \<Rightarrow> int \<Rightarrow> int set" where
  "assigned ws rows r =
     (let (start, finish) = row_range r (tdiv rows (ws - 1)) in {start..<finish})"

text \<open>
  The reading of "every cell update reads only the lattice as of the end of the previous
  sweep" that the worker loop is compared with: \<^verbatim>\<open>calculate_spin\<close> is run on the cells
  \<open>l0\<close> of the start of the sweep, and the value it gives the addressed cell is stored
  in the lattice being built.
\<close>

definition frozen_spin :: "'g methods \<Rightarrow> 'g Surface \<Rightarrow> nat \<times> nat \<Rightarrow> 'g Surface \<Rightarrow> 'g Surface" where
  "frozen_spin M l0 c l =
     (let (g, r) = calculate_spin M c (l0\<lparr>rng := rng l\<rparr>)
      in l\<lparr>surface := (surface l)[snd c := (surface l ! snd c)[fst c := cell g (fst c) (snd c)]],
           rng := r\<rparr>)"

definition frozen_sweep :: "'g methods \<Rightarrow> globals \<Rightarrow> nat \<Rightarrow> 'g Surface \<Rightarrow> 'g Surface" where
  "frozen_sweep M G r l0 =
     (let (start, finish) = row_range (int r) (rows_per_slave G)
      in fold (\<lambda>j. fold (\<lambda>k. frozen_spin M l0 (k, j)) [0..<nat (lsize l0)])
           [nat start..<nat finish] l0)"

text \<open>The cells of the rows \<open>js\<close> of a lattice of width \<open>n\<close>, in the order of the worker loop.\<close>

definition cells_of :: "nat \<Rightarrow> nat list \<Rightarrow> (nat \<times> nat) list" where
  "cells_of n js = concat (map (\<lambda>j. map (\<lambda>k. (k, j)) [0..<n]) js)"

text \<open>
  \<^verbatim>\<open>calculate_spin\<close> on the cell \<open>(k, j)\<close> leaves every row but \<open>j\<close> as it is (section 4.2
  of the specification: it mutates exactly one cell).
\<close>

definition row_local :: "'g methods \<Rightarrow> bool" where
  "row_local M = (\<forall>c l y. y \<noteq> snd c \<longrightarrow> fst (calculate_spin M c l) ! y = surface l ! y)"

section \<open>A small group\<close>

text \<open>
  Three ranks on a uniform 2 x 2 lattice at temperature 1, one sweep, one row for each of
  the ranks 1 and 2. The draw at position 100 (the first draw of rank 1) is 0, every
  other draw is 0.9. Messages arrive in the order sent, or in the opposite order.
\<close>

definition ex_draws :: "nat \<Rightarrow> real" where
  "ex_draws k = (if k = 100 then 0 else 9 / 10)"

definition uniform2 :: "nat \<Rightarrow> nat Surface" where
  "uniform2 r = (zeroed r ''ising'' 1 2 1)\<lparr>surface := [[1, 1], [1, 1]]\<rparr>"

definition ex_world :: "nat world" where
  "ex_world =
     \<lparr>master = uniform2 0, slaves = [uniform2 1, uniform2 2], inflight = [], saved = []\<rparr>"

definition ex_G :: globals where
  "ex_G = \<lparr>world_size = 3, rows_per_slave = 1\<rparr>"

definition in_order :: "nat \<Rightarrow> msg list \<Rightarrow> msg list" where
  "in_order i ms = ms"

definition reversed :: "nat \<Rightarrow> msg list \<Rightarrow> msg list" where
  "reversed i ms = rev ms"

definition ex_args :: "int \<Rightarrow> args" where
  "ex_args rows =
     \<lparr>argc = 4, argv0 = ''ising'', n_arg = 1, rows_arg = rows, temp_arg = 1, out_arg = []\<rparr>"

definition ex_world_after :: "nat world" where
  "ex_world_after =
     \<lparr>master = (uniform2 0)\<lparr>surface := [[- 1, - 1], [1, 1]],
                 avgEnergy := [0 \<mapsto> - 8], avgMag := [0 \<mapsto> 1]\<rparr>,
      slaves = [(uniform2 1)\<lparr>surface := [[- 1, - 1], [1, 1]], rng := 102\<rparr>,
                (uniform2 2)\<lparr>surface := [[- 1, - 1], [1, 1]], rng := 202\<rparr>],
      inflight = [], saved = []\<rparr>"

text \<open>
  Two ranks started as \<^verbatim>\<open>./ising 1 2 1\<close>: the group when \<^verbatim>\<open>simulate\<close> is entered, and
  the group that \<^verbatim>\<open>main\<close> leaves behind.
\<close>

definition ex_entry :: "nat world" where
  "ex_entry =
     clear_and_save (spec_methods ex_draws)
       (master_to_slaves_sync (group (spec_methods ex_draws) 2 (ex_args 2)))"

definition ex_final :: "nat world" where
  "ex_final =
     \<lparr>master = (zeroed 0 ''ising'' 1 2 1)\<lparr>avgEnergy := [0 \<mapsto> - 8], avgMag := [0 \<mapsto> 1],
                 complete := True\<rparr>,
      slaves = [(zeroed 1 ''ising'' 1 2 1)\<lparr>rng := 104\<rparr>],
      inflight = [],
      saved = [(zeroed 0 ''ising'' 1 2 1)\<lparr>surface := [[1, 1], [1, 1]]\<rparr>,
               (zeroed 0 ''ising'' 1 2 1)\<lparr>avgEnergy := [0 \<mapsto> - 8], avgMag := [0 \<mapsto> 1],
                 complete := True\<rparr>]\<rparr>"

section \<open>Row partition\<close>

lemma tdiv_pos: "0 < a \<Longrightarrow> 0 < b \<Longrightarrow> tdiv a b = a div b"
  by (simp add: tdiv_def)

lemma range_le:
  fixes i j rps :: int
  assumes "0 \<le> rps" "i < j"
  shows "(i + 1) * rps \<le> j * rps"
  using assms by (intro mult_right_mono) auto

lemma ranges_disjoint:
  fixes i j rps :: int
  assumes "0 \<le> rps" "i \<noteq> j"
  shows "{i * rps..<(i + 1) * rps} \<inter> {j * rps..<(j + 1) * rps} = {}"
proof (cases "i < j")
  case True
  from range_le [OF assms(1) True] show ?thesis by auto
next
  case False
  with assms(2) have "j < i" by simp
  from range_le [OF assms(1) this] show ?thesis by auto
qed

lemma last_finish_le:
  fixes rows wc :: int
  assumes "0 < wc" "0 \<le> rows"
  shows "wc * (rows div wc) \<le> rows"
  using pos_mod_sign [of wc rows] mult_div_mod_eq [of wc rows] assms by linarith

lemma assigned_eq:
  fixes rows ws i :: int
  assumes "0 < rows" "1 < ws"
  shows "assigned ws rows (i + 1) = {i * (rows div (ws - 1))..<(i + 1) * (rows div (ws - 1))}"
  using assms by (simp add: assigned_def row_range_def Let_def tdiv_pos algebra_simps)

text \<open>
  C3. With \<open>workerCount = world_size - 1\<close> workers and \<open>rowsPerWorker = rows / workerCount\<close>
  (integer division), the worker with index \<open>i\<close> (rank \<open>i + 1\<close>) is given exactly the
  half-open range \<open>[i * rowsPerWorker, (i + 1) * rowsPerWorker)\<close>; the ranges of two
  different workers are disjoint and lie inside \<open>[0, rows)\<close>; the rows from
  \<open>workerCount * rowsPerWorker\<close> on, which exist when \<open>workerCount\<close> does not divide
  \<open>rows\<close>, are in no worker's range; and for 100 rows and 4 workers the ranges are
  \<open>[0,25)\<close>, \<open>[25,50)\<close>, \<open>[50,75)\<close>, \<open>[75,100)\<close>, whose union is \<open>[0,100)\<close>.
\<close>

theorem row_partition:
  fixes rows ws :: int
  assumes "0 < rows" and "1 < ws"
  shows "tdiv rows (ws - 1) = rows div (ws - 1) \<and>
    (\<forall>i. 0 \<le> i \<and> i < ws - 1 \<longrightarrow>
       row_range (i + 1) (tdiv rows (ws - 1)) =
         (i * (rows div (ws - 1)), (i + 1) * (rows div (ws - 1))) \<and>
       assigned ws rows (i + 1) = {i * (rows div (ws - 1))..<(i + 1) * (rows div (ws - 1))} \<and>
       assigned ws rows (i + 1) \<subseteq> {0..<rows}) \<and>
    (\<forall>i j. 0 \<le> i \<and> i < ws - 1 \<and> 0 \<le> j \<and> j < ws - 1 \<and> i \<noteq> j \<longrightarrow>
       assigned ws rows (i + 1) \<inter> assigned ws rows (j + 1) = {}) \<and>
    (\<forall>y i. (ws - 1) * (rows div (ws - 1)) \<le> y \<and> y < rows \<and> 0 \<le> i \<and> i < ws - 1 \<longrightarrow>
       y \<notin> assigned ws rows (i + 1)) \<and>
    map (\<lambda>r. row_range r (tdiv 100 (5 - 1))) [1, 2, 3, 4] =
      [(0, 25), (25, 50), (50, 75), (75, 100)] \<and>
    (\<Union>r \<in> {1, 2, 3, 4}. assigned 5 100 r) = {0..<100}"
proof -
  let ?wc = "ws - 1"
  let ?rps = "rows div ?wc"
  have wc: "0 < ?wc" using assms by simp
  have t: "tdiv rows ?wc = ?rps"
    using assms wc by (simp add: tdiv_pos)
  have rps: "0 \<le> ?rps"
    using assms(1) wc by (simp add: pos_imp_zdiv_nonneg_iff)
  have top: "?wc * ?rps \<le> rows"
    using last_finish_le [OF wc] assms(1) by simp
  have below: "(i + 1) * ?rps \<le> ?wc * ?rps" if "i < ?wc" for i
    using that rps by (intro mult_right_mono) auto
  have a: "assigned ws rows (i + 1) = {i * ?rps..<(i + 1) * ?rps}" for i
    by (rule assigned_eq [OF assms])
  have one: "\<forall>i. 0 \<le> i \<and> i < ?wc \<longrightarrow>
       row_range (i + 1) (tdiv rows ?wc) = (i * ?rps, (i + 1) * ?rps) \<and>
       assigned ws rows (i + 1) = {i * ?rps..<(i + 1) * ?rps} \<and>
       assigned ws rows (i + 1) \<subseteq> {0..<rows}"
  proof (intro allI impI conjI)
    fix i assume h: "0 \<le> i \<and> i < ?wc"
    show "row_range (i + 1) (tdiv rows ?wc) = (i * ?rps, (i + 1) * ?rps)"
      unfolding t by (simp add: row_range_def Let_def algebra_simps)
    show "assigned ws rows (i + 1) = {i * ?rps..<(i + 1) * ?rps}" by (rule a)
    have "0 \<le> i * ?rps" using h rps by simp
    moreover have "(i + 1) * ?rps \<le> rows" using below [of i] h top by linarith
    ultimately show "assigned ws rows (i + 1) \<subseteq> {0..<rows}"
      unfolding a by auto
  qed
  have two: "\<forall>i j. 0 \<le> i \<and> i < ?wc \<and> 0 \<le> j \<and> j < ?wc \<and> i \<noteq> j \<longrightarrow>
       assigned ws rows (i + 1) \<inter> assigned ws rows (j + 1) = {}"
  proof (intro allI impI)
    fix i j :: int
    assume "0 \<le> i \<and> i < ?wc \<and> 0 \<le> j \<and> j < ?wc \<and> i \<noteq> j"
    then have "i \<noteq> j" by simp
    from ranges_disjoint [OF rps this]
    show "assigned ws rows (i + 1) \<inter> assigned ws rows (j + 1) = {}"
      unfolding a by simp
  qed
  have three: "\<forall>y i. ?wc * ?rps \<le> y \<and> y < rows \<and> 0 \<le> i \<and> i < ?wc \<longrightarrow>
       y \<notin> assigned ws rows (i + 1)"
  proof (intro allI impI)
    fix y i
    assume h: "?wc * ?rps \<le> y \<and> y < rows \<and> 0 \<le> i \<and> i < ?wc"
    with below [of i] show "y \<notin> assigned ws rows (i + 1)"
      unfolding a by simp
  qed
  have four: "map (\<lambda>r. row_range r (tdiv 100 (5 - 1))) [1, 2, 3, 4] =
      [(0, 25), (25, 50), (50, 75), (75, 100)]"
    by (simp add: row_range_def tdiv_def Let_def)
  have five: "(\<Union>r \<in> {1, 2, 3, 4}. assigned 5 100 r) = {0..<100}"
    by (auto simp add: assigned_def row_range_def tdiv_def Let_def)
  from t one two three four five show ?thesis by blast
qed

theorem row_partition_witness:
  "(0::int) < 7 \<and> (1::int) < 4 \<and> tdiv 7 (4 - 1) = 2 \<and>
   row_range 2 (tdiv 7 (4 - 1)) = (2, 4) \<and>
   assigned 4 7 2 = {2..<4} \<and>
   assigned 4 7 1 \<inter> assigned 4 7 3 = {} \<and>
   6 \<notin> assigned 4 7 1 \<and> 6 \<notin> assigned 4 7 2 \<and> 6 \<notin> assigned 4 7 3"
proof -
  have h1: "(0::int) < 7" and h2: "(1::int) < 4" by simp_all
  note p = row_partition [OF h1 h2]
  from p have t: "tdiv 7 (4 - 1) = 7 div (4 - 1)"
    by (rule conjunct1)
  from p have A: "\<forall>i. 0 \<le> i \<and> i < 4 - 1 \<longrightarrow>
       row_range (i + 1) (tdiv 7 (4 - 1)) = (i * (7 div (4 - 1)), (i + 1) * (7 div (4 - 1))) \<and>
       assigned 4 7 (i + 1) = {i * (7 div (4 - 1))..<(i + 1) * (7 div (4 - 1))} \<and>
       assigned 4 7 (i + 1) \<subseteq> {0..<7}"
    by (elim conjE)
  from p have B: "\<forall>i j. 0 \<le> i \<and> i < 4 - 1 \<and> 0 \<le> j \<and> j < 4 - 1 \<and> i \<noteq> j \<longrightarrow>
       assigned 4 7 (i + 1) \<inter> assigned 4 7 (j + 1) = {}"
    by (elim conjE)
  from p have C: "\<forall>y i. (4 - 1) * (7 div (4 - 1)) \<le> y \<and> y < 7 \<and> 0 \<le> i \<and> i < 4 - 1 \<longrightarrow>
       y \<notin> assigned 4 7 (i + 1)"
    by (elim conjE)
  have d: "(7::int) div 3 = 2" by simp
  have "tdiv 7 (4 - 1) = 2" using t by (simp add: d)
  moreover have "row_range 2 (tdiv 7 (4 - 1)) = (2, 4) \<and> assigned 4 7 2 = {2..<4}"
    using A [rule_format, of 1] by (simp add: d)
  moreover have "assigned 4 7 1 \<inter> assigned 4 7 3 = {}"
    using B [rule_format, of 0 2] by simp
  moreover have "6 \<notin> assigned 4 7 1" using C [rule_format, of 6 0] by (simp add: d)
  moreover have "6 \<notin> assigned 4 7 2" using C [rule_format, of 6 1] by (simp add: d)
  moreover have "6 \<notin> assigned 4 7 3" using C [rule_format, of 6 2] by (simp add: d)
  ultimately show ?thesis by simp
qed

section \<open>Receiving by tag\<close>

lemma recv_any_None_iff: "recv_any y pool = None \<longleftrightarrow> y \<notin> tag ` set pool"
  by (induction pool) (auto split: option.splits)

lemma recv_any_Some:
  assumes "recv_any y pool = Some (r, rest)" and "distinct (map tag pool)"
  shows "rest = filter (\<lambda>m. tag m \<noteq> y) pool \<and> (\<exists>m \<in> set pool. tag m = y \<and> payload m = r)"
  using assms
proof (induction pool arbitrary: rest)
  case Nil
  then show ?case by simp
next
  case (Cons m ms)
  show ?case
  proof (cases "tag m = y")
    case True
    with Cons.prems have "rest = ms" "payload m = r" by simp_all
    moreover have "tag x \<noteq> y" if "x \<in> set ms" for x
      using that True Cons.prems(2) by (auto simp: image_iff)
    then have "filter (\<lambda>m. tag m \<noteq> y) ms = ms"
      by (simp add: filter_id_conv)
    ultimately show ?thesis using True by simp
  next
    case False
    with Cons.prems(1) obtain rest' where r: "recv_any y ms = Some (r, rest')" "rest = m # rest'"
      by (auto split: option.splits)
    from Cons.IH [OF r(1)] Cons.prems(2) r(2) False show ?thesis by simp
  qed
qed

lemma gather_length:
  "gather ys g pool = Some (g', rest) \<Longrightarrow> length g' = length g"
  by (induction ys arbitrary: g pool) (auto split: option.splits)

lemma gather_untouched:
  "gather ys g pool = Some (g', rest) \<Longrightarrow> y \<notin> set ys \<Longrightarrow> g' ! y = g ! y"
  by (induction ys arbitrary: g pool) (auto split: option.splits)

lemma gather_Some:
  assumes "gather ys g pool = Some (g', rest)"
    and "distinct (map tag pool)" and "distinct ys"
  shows "set ys \<subseteq> tag ` set pool \<and> rest = filter (\<lambda>m. tag m \<notin> set ys) pool \<and>
         (\<forall>m \<in> set pool. tag m \<in> set ys \<and> tag m < length g \<longrightarrow> g' ! tag m = payload m)"
  using assms
proof (induction ys arbitrary: g pool)
  case Nil
  then show ?case by simp
next
  case (Cons y ys)
  from Cons.prems(1) obtain r rest1 where
    r: "recv_any y pool = Some (r, rest1)" and g: "gather ys (g[y := r]) rest1 = Some (g', rest)"
    by (auto split: option.splits)
  from recv_any_Some [OF r Cons.prems(2)] obtain m0 where
    rest1: "rest1 = filter (\<lambda>m. tag m \<noteq> y) pool" and
    m0: "m0 \<in> set pool" "tag m0 = y" "payload m0 = r" by blast
  have d1: "distinct (map tag rest1)"
    unfolding rest1 using Cons.prems(2) by (rule distinct_map_filter)
  from Cons.prems(3) have dy: "distinct ys" and ny: "y \<notin> set ys" by simp_all
  note ih = Cons.IH [OF g d1 dy]
  have sub: "set (y # ys) \<subseteq> tag ` set pool"
    using ih m0 rest1 by auto
  have rest: "rest = filter (\<lambda>m. tag m \<notin> set (y # ys)) pool"
    using ih rest1 by (auto intro: filter_cong)
  have rows: "\<forall>m \<in> set pool. tag m \<in> set (y # ys) \<and> tag m < length g \<longrightarrow> g' ! tag m = payload m"
  proof (intro ballI impI)
    fix m assume m: "m \<in> set pool" and t: "tag m \<in> set (y # ys) \<and> tag m < length g"
    show "g' ! tag m = payload m"
    proof (cases "tag m = y")
      case True
      with m m0 Cons.prems(2) have "m = m0"
        by (metis distinct_map inj_onD)
      moreover have "g' ! y = g[y := r] ! y"
        by (rule gather_untouched [OF g ny])
      ultimately show ?thesis using True t m0 by simp
    next
      case False
      with m t rest1 have "m \<in> set rest1" "tag m \<in> set ys" by auto
      with ih t show ?thesis by simp
    qed
  qed
  from sub rest rows show ?case by blast
qed

lemma gather_total:
  assumes "set ys \<subseteq> tag ` set pool" and "distinct ys"
  shows "\<exists>g' rest. gather ys g pool = Some (g', rest)"
  using assms
proof (induction ys arbitrary: g pool)
  case Nil
  then show ?case by simp
next
  case (Cons y ys)
  from Cons.prems have "y \<in> tag ` set pool" by simp
  then obtain r rest1 where r: "recv_any y pool = Some (r, rest1)"
    using recv_any_None_iff [of y pool] by (cases "recv_any y pool") auto
  have "set rest1 \<supseteq> {m \<in> set pool. tag m \<noteq> y}"
    using r by (induction pool arbitrary: rest1) (auto split: if_splits option.splits)
  moreover have "y \<notin> set ys" using Cons.prems(2) by simp
  ultimately have "set ys \<subseteq> tag ` set rest1"
    using Cons.prems(1) by (fastforce simp: image_iff subset_iff)
  with Cons.IH [of rest1 "g[y := r]"] Cons.prems(2) r show ?case by simp
qed

lemma gather_blocks:
  assumes "\<not> set ys \<subseteq> tag ` set pool" and "distinct (map tag pool)" and "distinct ys"
  shows "gather ys g pool = None"
proof (cases "gather ys g pool")
  case None
  then show ?thesis .
next
  case (Some a)
  then obtain g' rest where "gather ys g pool = Some (g', rest)" by (cases a) auto
  from gather_Some [OF this assms(2,3)] assms(1) show ?thesis by simp
qed

section \<open>The messages of one sweep\<close>

lemma slave_rows_Cons:
  "slave_rows M r (j # js) l =
     (fst (slave_rows M r js (compute_row M j l)),
      \<lparr>tag = j, source = r, payload = surface (compute_row M j l) ! j\<rparr> #
        snd (slave_rows M r js (compute_row M j l)))"
  by (simp add: Let_def split_beta)

lemma slave_rows_tags: "map tag (snd (slave_rows M r js l)) = js"
  by (induction js arbitrary: l) (simp_all add: slave_rows_Cons del: slave_rows.simps(2))

lemma slave_rows_sources: "m \<in> set (snd (slave_rows M r js l)) \<Longrightarrow> source m = r"
  by (induction js arbitrary: l) (auto simp add: slave_rows_Cons simp del: slave_rows.simps(2))

lemma slave_range_nat:
  assumes "1 \<le> r" and "0 \<le> rps"
  shows "nat (fst (row_range (int r) rps)) = (r - 1) * nat rps"
    and "nat (snd (row_range (int r) rps)) = r * nat rps"
proof -
  from assms(1) obtain q where r: "r = Suc q" by (cases r) auto
  obtain p where p: "rps = int p" using assms(2) by (metis nonneg_int_cases)
  have s: "(int r - 1) * rps = int (q * p)" unfolding r p by simp
  have "fst (row_range (int r) rps) = int (q * p)"
    unfolding row_range_def Let_def fst_conv by (rule s)
  then show "nat (fst (row_range (int r) rps)) = (r - 1) * nat rps"
    by (simp only: nat_int) (simp add: r p)
  have "(int r - 1) * rps + rps = int (Suc q * p)"
    unfolding r p by (simp add: algebra_simps)
  then have "snd (row_range (int r) rps) = int (Suc q * p)"
    unfolding row_range_def Let_def snd_conv .
  then show "nat (snd (row_range (int r) rps)) = r * nat rps"
    by (simp only: nat_int) (simp add: r p)
qed

lemma slave_sweep_eq:
  assumes "1 \<le> r" and "0 \<le> rows_per_slave G"
  shows "slave_sweep M G r l =
           slave_rows M r [(r - 1) * nat (rows_per_slave G)..<r * nat (rows_per_slave G)] l"
  using slave_range_nat [OF assms]
  by (simp add: slave_sweep_def split_beta)

lemma sent_tags:
  assumes "0 \<le> rows_per_slave G"
  shows "map tag (concat (map snd (slaves_compute M G ls))) =
           [0..<length ls * nat (rows_per_slave G)]"
  unfolding slaves_compute_def
proof (induction ls rule: rev_induct)
  case Nil
  then show ?case by simp
next
  case (snoc l ls)
  have "map tag (snd (slave_sweep M G (Suc (length ls)) l)) =
          [length ls * nat (rows_per_slave G)..<Suc (length ls) * nat (rows_per_slave G)]"
    using slave_sweep_eq [of "Suc (length ls)" G M l] assms
    by (simp add: slave_rows_tags)
  moreover have "[0..<length ls * nat (rows_per_slave G)] @
        [length ls * nat (rows_per_slave G)..<Suc (length ls) * nat (rows_per_slave G)] =
        [0..<Suc (length ls) * nat (rows_per_slave G)]"
    using upt_add_eq_append [of 0 "length ls * nat (rows_per_slave G)" "nat (rows_per_slave G)"]
    by (simp add: add.commute)
  ultimately show ?case
    using snoc.IH by (simp add: enumerate_append_eq)
qed

section \<open>One sweep\<close>

lemma record_stats_fields [simp]:
  "surface (record_stats M i m) = surface m"
  "lsize (record_stats M i m) = lsize m"
  "loops (record_stats M i m) = loops m"
  "rng (record_stats M i m) = rng m"
  "complete (record_stats M i m) = complete m"
  by (simp_all add: record_stats_def Let_def)

lemma record_stats_avgEnergy:
  "avgEnergy (record_stats M i m) = (avgEnergy m)(i \<mapsto> calculate_energy M m)"
  by (simp add: record_stats_def Let_def)

lemma record_stats_avgMag:
  "avgMag (record_stats M i m) =
     (avgMag m)(i \<mapsto> calculate_magnetism M (m\<lparr>avgEnergy := (avgEnergy m)(i \<mapsto> calculate_energy M m)\<rparr>))"
  by (simp add: record_stats_def Let_def)

lemma length_slaves_compute [simp]: "length (slaves_compute M G ls) = length ls"
  by (simp add: slaves_compute_def)

lemma fair_pool:
  assumes "mset pool = mset sent"
  shows "set pool = set sent" and "distinct (map tag pool) = distinct (map tag sent)"
proof -
  show "set pool = set sent" using assms by (rule mset_eq_setD)
  have "mset (map tag pool) = mset (map tag sent)" using assms by simp
  then show "distinct (map tag pool) = distinct (map tag sent)"
    by (rule mset_eq_imp_distinct_iff)
qed

lemma sweep_Some:
  assumes s: "sweep M G arrive i w = Some w'"
    and empty: "inflight w = []"
    and rps: "0 \<le> rows_per_slave G"
    and fair: "\<And>ms. mset (arrive i ms) = mset ms"
  shows "\<exists>g'. master w' = (record_stats M i (master w))\<lparr>surface := g'\<rparr> \<and>
           length g' = length (surface (master w)) \<and>
           slaves w' = map (recv_rows g' \<circ> fst) (slaves_compute M G (slaves w)) \<and>
           saved w' = saved w \<and>
           inflight w' =
             filter (\<lambda>m. tag m \<notin> {0..<nat (lsize (master w))})
               (arrive i (concat (map snd (slaves_compute M G (slaves w))))) \<and>
           nat (lsize (master w)) \<le> length (slaves w) * nat (rows_per_slave G) \<and>
           (\<forall>m \<in> set (concat (map snd (slaves_compute M G (slaves w)))).
              tag m < nat (lsize (master w)) \<and> tag m < length (surface (master w)) \<longrightarrow>
              g' ! tag m = payload m)"
proof -
  let ?sent = "concat (map snd (slaves_compute M G (slaves w)))"
  let ?pool = "arrive i ?sent"
  let ?sz = "nat (lsize (master w))"
  from s empty obtain g' rest where
    g: "gather [0..<?sz] (surface (master w)) ?pool = Some (g', rest)" and
    w': "w' = master_to_slaves_sync
           (w\<lparr>master := (record_stats M i (master w))\<lparr>surface := g'\<rparr>,
              slaves := map fst (slaves_compute M G (slaves w)), inflight := rest\<rparr>)"
    by (auto simp: sweep_def Let_def split: option.splits)
  have tags: "map tag ?sent = [0..<length (slaves w) * nat (rows_per_slave G)]"
    by (rule sent_tags [OF rps])
  have d: "distinct (map tag ?pool)"
    using fair_pool(2) [OF fair, of ?sent] tags by simp
  have sp: "set ?pool = set ?sent" by (rule fair_pool(1) [OF fair])
  note G = gather_Some [OF g d distinct_upt]
  have "tag ` set ?pool = {0..<length (slaves w) * nat (rows_per_slave G)}"
    unfolding sp using tags by (metis set_map set_upt)
  with G have "set [0..<?sz] \<subseteq> {0..<length (slaves w) * nat (rows_per_slave G)}"
    by blast
  then have le: "?sz \<le> length (slaves w) * nat (rows_per_slave G)"
    by (cases "?sz") auto
  have rows: "\<forall>m \<in> set ?sent. tag m < ?sz \<and> tag m < length (surface (master w)) \<longrightarrow>
      g' ! tag m = payload m"
    using G sp by simp
  have "master w' = (record_stats M i (master w))\<lparr>surface := g'\<rparr>"
    by (simp add: w' master_to_slaves_sync_def)
  moreover have "length g' = length (surface (master w))"
    by (rule gather_length [OF g])
  moreover have "slaves w' = map (recv_rows g' \<circ> fst) (slaves_compute M G (slaves w))"
    by (simp add: w' master_to_slaves_sync_def)
  moreover have "saved w' = saved w"
    by (simp add: w' master_to_slaves_sync_def)
  moreover have "inflight w' = filter (\<lambda>m. tag m \<notin> {0..<?sz}) ?pool"
    using G by (simp add: w' master_to_slaves_sync_def)
  ultimately show ?thesis using le rows by blast
qed

lemma sweep_returns:
  assumes empty: "inflight w = []"
    and rps: "0 \<le> rows_per_slave G"
    and fair: "\<And>ms. mset (arrive i ms) = mset ms"
    and cover: "nat (lsize (master w)) \<le> length (slaves w) * nat (rows_per_slave G)"
  shows "\<exists>w'. sweep M G arrive i w = Some w'"
proof -
  let ?sent = "concat (map snd (slaves_compute M G (slaves w)))"
  let ?pool = "arrive i ?sent"
  have tags: "map tag ?sent = [0..<length (slaves w) * nat (rows_per_slave G)]"
    by (rule sent_tags [OF rps])
  have sp: "set ?pool = set ?sent" by (rule fair_pool(1) [OF fair])
  have "tag ` set ?pool = {0..<length (slaves w) * nat (rows_per_slave G)}"
    unfolding sp using tags by (metis set_map set_upt)
  with cover have "set [0..<nat (lsize (master w))] \<subseteq> tag ` set ?pool" by simp
  from gather_total [OF this distinct_upt, of "surface (master w)"]
  show ?thesis using empty by (auto simp: sweep_def Let_def)
qed

lemma sweep_blocks:
  assumes empty: "inflight w = []"
    and rps: "0 \<le> rows_per_slave G"
    and fair: "\<And>ms. mset (arrive i ms) = mset ms"
    and short: "length (slaves w) * nat (rows_per_slave G) < nat (lsize (master w))"
  shows "sweep M G arrive i w = None"
proof (cases "sweep M G arrive i w")
  case None
  then show ?thesis .
next
  case (Some w')
  from sweep_Some [OF Some empty rps fair] short show ?thesis by auto
qed

section \<open>The sweep loop\<close>

lemma sweep_master:
  assumes "sweep M G arrive i w = Some w'"
  shows "\<exists>g'. master w' = (record_stats M i (master w))\<lparr>surface := g'\<rparr>"
  using assms
  by (auto simp: sweep_def Let_def master_to_slaves_sync_def split: option.splits)

lemma sweep_keeps:
  assumes s: "sweep M G arrive i w = Some w'"
    and empty: "inflight w = []"
    and rps: "0 \<le> rows_per_slave G"
    and fair: "\<And>ms. mset (arrive i ms) = mset ms"
    and fit: "length (slaves w) * nat (rows_per_slave G) \<le> nat (lsize (master w))"
  shows "inflight w' = []"
    and "length (slaves w') = length (slaves w)"
    and "lsize (master w') = lsize (master w)"
    and "loops (master w') = loops (master w)"
    and "length (slaves w) * nat (rows_per_slave G) = nat (lsize (master w))"
proof -
  let ?sent = "concat (map snd (slaves_compute M G (slaves w)))"
  from sweep_Some [OF s empty rps fair] obtain g' where
    m: "master w' = (record_stats M i (master w))\<lparr>surface := g'\<rparr>" and
    sl: "slaves w' = map (recv_rows g' \<circ> fst) (slaves_compute M G (slaves w))" and
    fl: "inflight w' = filter (\<lambda>m. tag m \<notin> {0..<nat (lsize (master w))}) (arrive i ?sent)" and
    le: "nat (lsize (master w)) \<le> length (slaves w) * nat (rows_per_slave G)"
    by blast
  have "tag ` set (arrive i ?sent) = tag ` set ?sent"
    using fair_pool(1) [OF fair, of ?sent] by simp
  also have "\<dots> = set (map tag ?sent)" by simp
  also have "\<dots> = {0..<length (slaves w) * nat (rows_per_slave G)}"
    unfolding sent_tags [OF rps] by simp
  finally have t: "tag ` set (arrive i ?sent) = {0..<length (slaves w) * nat (rows_per_slave G)}" .
  have "\<forall>m \<in> set (arrive i ?sent). tag m \<in> {0..<nat (lsize (master w))}"
  proof
    fix m assume "m \<in> set (arrive i ?sent)"
    then have "tag m \<in> tag ` set (arrive i ?sent)" by (rule imageI)
    then have "tag m < length (slaves w) * nat (rows_per_slave G)" unfolding t by simp
    with fit show "tag m \<in> {0..<nat (lsize (master w))}" by simp
  qed
  then show "inflight w' = []" unfolding fl by (simp add: filter_empty_conv)
  show "length (slaves w') = length (slaves w)" by (simp add: sl)
  show "lsize (master w') = lsize (master w)" by (simp add: m)
  show "loops (master w') = loops (master w)" by (simp add: m)
  show "length (slaves w) * nat (rows_per_slave G) = nat (lsize (master w))"
    using le fit by simp
qed

lemma sweeps_returns:
  assumes "inflight w = []"
    and "0 \<le> rows_per_slave G"
    and "\<And>i ms. mset (arrive i ms) = mset ms"
    and "length (slaves w) * nat (rows_per_slave G) = nat (lsize (master w))"
  shows "\<exists>w'. sweeps M G arrive is w = Some w'"
  using assms(1,4)
proof (induction "is" arbitrary: w)
  case Nil
  then show ?case by simp
next
  case (Cons i "is")
  have "nat (lsize (master w)) \<le> length (slaves w) * nat (rows_per_slave G)"
    using Cons.prems(2) by simp
  then have "\<exists>w1. sweep M G arrive i w = Some w1"
    using Cons.prems(1) assms(2,3) by (intro sweep_returns) auto
  then obtain w1 where w1: "sweep M G arrive i w = Some w1" by blast
  have fit: "length (slaves w) * nat (rows_per_slave G) \<le> nat (lsize (master w))"
    using Cons.prems(2) by simp
  note k = sweep_keeps [OF w1 Cons.prems(1) assms(2,3) fit]
  from Cons.IH [of w1] k Cons.prems(2) obtain w' where "sweeps M G arrive is w1 = Some w'"
    by auto
  with w1 show ?case by simp
qed

lemma sweeps_blocks:
  assumes "inflight w = []"
    and "0 \<le> rows_per_slave G"
    and "\<And>i ms. mset (arrive i ms) = mset ms"
    and "length (slaves w) * nat (rows_per_slave G) < nat (lsize (master w))"
    and "is \<noteq> []"
  shows "sweeps M G arrive is w = None"
proof -
  from assms(5) obtain i is' where i: "is = i # is'" by (cases "is") auto
  have "sweep M G arrive i w = None"
    by (rule sweep_blocks [OF assms(1,2,3,4)])
  then show ?thesis by (simp add: i)
qed

lemma sweeps_append:
  "sweeps M G arrive (is @ js) w =
     (case sweeps M G arrive is w of None \<Rightarrow> None | Some w1 \<Rightarrow> sweeps M G arrive js w1)"
  by (induction "is" arbitrary: w) (auto split: option.splits)

lemma sweeps_untouched:
  assumes "sweeps M G arrive is w = Some w'" and "j \<notin> set is"
  shows "avgEnergy (master w') j = avgEnergy (master w) j"
    and "avgMag (master w') j = avgMag (master w) j"
  using assms
proof (induction "is" arbitrary: w)
  case Nil
  { case 1 then show ?case by simp }
  { case 2 then show ?case by simp }
next
  case (Cons i "is")
  { case 1
    then obtain w1 where w1: "sweep M G arrive i w = Some w1" "sweeps M G arrive is w1 = Some w'"
      by (auto split: option.splits)
    from sweep_master [OF w1(1)] 1(2) have "avgEnergy (master w1) j = avgEnergy (master w) j"
      by (auto simp: record_stats_avgEnergy)
    with Cons.IH(1) [OF w1(2)] 1(2) show ?case by simp }
  { case 2
    then obtain w1 where w1: "sweep M G arrive i w = Some w1" "sweeps M G arrive is w1 = Some w'"
      by (auto split: option.splits)
    from sweep_master [OF w1(1)] 2(2) have "avgMag (master w1) j = avgMag (master w) j"
      by (auto simp: record_stats_avgMag)
    with Cons.IH(2) [OF w1(2)] 2(2) show ?case by simp }
qed

lemma sweeps_dom:
  assumes "sweeps M G arrive is w = Some w'"
  shows "dom (avgEnergy (master w')) = dom (avgEnergy (master w)) \<union> set is"
    and "dom (avgMag (master w')) = dom (avgMag (master w)) \<union> set is"
  using assms
proof (induction "is" arbitrary: w)
  case Nil
  { case 1 then show ?case by simp }
  { case 2 then show ?case by simp }
next
  case (Cons i "is")
  { case 1
    then obtain w1 where w1: "sweep M G arrive i w = Some w1" "sweeps M G arrive is w1 = Some w'"
      by (auto split: option.splits)
    from sweep_master [OF w1(1)] have "dom (avgEnergy (master w1)) = insert i (dom (avgEnergy (master w)))"
      by (auto simp: record_stats_avgEnergy)
    with Cons.IH(1) [OF w1(2)] show ?case by simp }
  { case 2
    then obtain w1 where w1: "sweep M G arrive i w = Some w1" "sweeps M G arrive is w1 = Some w'"
      by (auto split: option.splits)
    from sweep_master [OF w1(1)] have "dom (avgMag (master w1)) = insert i (dom (avgMag (master w)))"
      by (auto simp: record_stats_avgMag)
    with Cons.IH(2) [OF w1(2)] show ?case by simp }
qed

lemma sweeps_stats:
  assumes "sweeps M G arrive (is @ i # js) w = Some w'" and "i \<notin> set js"
  shows "\<exists>wi. sweeps M G arrive is w = Some wi \<and>
           avgEnergy (master w') i = Some (calculate_energy M (master wi)) \<and>
           avgMag (master w') i = avgMag (record_stats M i (master wi)) i"
proof -
  from assms(1) obtain wi w1 where
    wi: "sweeps M G arrive is w = Some wi" and
    w1: "sweep M G arrive i wi = Some w1" and
    w': "sweeps M G arrive js w1 = Some w'"
    by (auto simp: sweeps_append split: option.splits)
  from sweep_master [OF w1] have
    "avgEnergy (master w1) i = Some (calculate_energy M (master wi))"
    "avgMag (master w1) i = avgMag (record_stats M i (master wi)) i"
    by (auto simp: record_stats_avgEnergy)
  with sweeps_untouched [OF w' assms(2)] wi show ?thesis by simp
qed

section \<open>Evaluating the small group\<close>

lemma exp_m8: "exp (- 8 :: real) < 9 / 10"
proof -
  have "1 + (8::real) \<le> exp 8" by (rule exp_ge_add_one_self)
  then have "exp (- 8 :: real) \<le> 1 / 9"
    by (simp add: exp_minus field_simps)
  then show ?thesis by simp
qed

lemma accepted_simps:
  "accepted 1 8 (9 / 10) = False"
  "accepted 1 8 0 = True"
  "accepted 1 0 x = True"
  "accepted 1 (- 8) x = True"
  using exp_m8 by (simp_all add: accepted_def not_less less_imp_le)

lemmas spin_eval =
  do_spin_def spec_methods_def spec_spin_def update_def delta_E_def
  neighbours_def cell_def flipped_def accepted_simps ex_draws_def

lemma rank1_sweep:
  "slave_sweep (spec_methods ex_draws) ex_G 1 (uniform2 1) =
     ((uniform2 1)\<lparr>surface := [[- 1, - 1], [1, 1]], rng := 102\<rparr>,
      [\<lparr>tag = 0, source = 1, payload = [- 1, - 1]\<rparr>])"
  by (simp add: slave_sweep_def row_range_def ex_G_def Let_def uniform2_def zeroed_def
     compute_row_def spin_eval upt_rec)

lemma rank2_sweep:
  "slave_sweep (spec_methods ex_draws) ex_G 2 (uniform2 2) =
     ((uniform2 2)\<lparr>rng := 202\<rparr>,
      [\<lparr>tag = 1, source = 2, payload = [1, 1]\<rparr>])"
  by (simp add: slave_sweep_def row_range_def ex_G_def Let_def uniform2_def zeroed_def
     compute_row_def spin_eval upt_rec)

lemma rank1_frozen:
  "frozen_sweep (spec_methods ex_draws) ex_G 1 (uniform2 1) =
     (uniform2 1)\<lparr>surface := [[- 1, 1], [1, 1]], rng := 102\<rparr>"
  by (simp add: frozen_sweep_def frozen_spin_def row_range_def ex_G_def Let_def uniform2_def zeroed_def
     spin_eval upt_rec)

lemma ex_slaves_compute:
  "slaves_compute (spec_methods ex_draws) ex_G (slaves ex_world) =
     [((uniform2 1)\<lparr>surface := [[- 1, - 1], [1, 1]], rng := 102\<rparr>,
       [\<lparr>tag = 0, source = 1, payload = [- 1, - 1]\<rparr>]),
      ((uniform2 2)\<lparr>rng := 202\<rparr>, [\<lparr>tag = 1, source = 2, payload = [1, 1]\<rparr>])]"
  by (simp add: slaves_compute_def ex_world_def slave_sweep_def row_range_def ex_G_def Let_def
     uniform2_def zeroed_def compute_row_def spin_eval upt_rec)

lemma ex_energy_before: "spec_energy (uniform2 0) = - 8"
  by (simp add: spec_energy_def uniform2_def zeroed_def Let_def cell_def upt_rec)

lemma ex_magnetism_before: "spec_magnetism ((uniform2 0)\<lparr>avgEnergy := e\<rparr>) = 1"
  by (simp add: spec_magnetism_def uniform2_def zeroed_def Let_def)

lemma ex_energy_after: "spec_energy ((uniform2 0)\<lparr>surface := [[- 1, - 1], [1, 1]], avgEnergy := e, avgMag := m\<rparr>) = 0"
  by (simp add: spec_energy_def uniform2_def zeroed_def Let_def cell_def upt_rec)

lemma ex_sweep:
  "sweep (spec_methods ex_draws) ex_G in_order 0 ex_world = Some ex_world_after"
proof -
  have m: "record_stats (spec_methods ex_draws) 0 (master ex_world) =
      (uniform2 0)\<lparr>avgEnergy := [0 \<mapsto> - 8], avgMag := [0 \<mapsto> 1]\<rparr>"
    using ex_energy_before ex_magnetism_before
    by (simp add: record_stats_def Let_def ex_world_def spec_methods_def uniform2_def zeroed_def)
  have i: "inflight ex_world = []" by (simp add: ex_world_def)
  have sz: "lsize (uniform2 0) = 2" "surface (uniform2 0) = [[1, 1], [1, 1]]"
    by (simp_all add: uniform2_def zeroed_def)
  show ?thesis
    unfolding sweep_def m ex_slaves_compute i
    by (simp add: Let_def in_order_def sz upt_rec master_to_slaves_sync_def recv_rows_def
        uniform2_def zeroed_def ex_world_def ex_world_after_def)
qed

lemma ex_simulate:
  "simulate (spec_methods ex_draws) ex_G in_order ex_world = Some (EXIT_SUCCESS, ex_world_after)"
proof -
  have "loops (master ex_world) = 1"
    by (simp add: ex_world_def uniform2_def zeroed_def)
  then show ?thesis
    by (simp add: simulate_def upt_rec ex_sweep)
qed

section \<open>When the statistics are taken\<close>

text \<open>
  C1, as stated, fails: in the small group, after the only sweep, the energy stored at
  index 0 is \<open>- 8\<close> and the magnetism stored there is 1, the statistics of the uniform
  lattice from before the sweep, while the reassembled lattice, which holds the spin
  updates of sweep 0, has energy 0 and magnetism 0.
\<close>

theorem stats_after_gather_counterexample:
  "simulate (spec_methods ex_draws) ex_G in_order ex_world = Some (EXIT_SUCCESS, ex_world_after) \<and>
   avgEnergy (master ex_world_after) 0 = Some (- 8) \<and>
   calculate_energy (spec_methods ex_draws) (master ex_world_after) = 0 \<and>
   avgMag (master ex_world_after) 0 = Some 1 \<and>
   calculate_magnetism (spec_methods ex_draws) (master ex_world_after) = 0"
proof -
  have "calculate_energy (spec_methods ex_draws) (master ex_world_after) = 0"
    using ex_energy_after by (simp add: ex_world_after_def spec_methods_def)
  moreover have "calculate_magnetism (spec_methods ex_draws) (master ex_world_after) = 0"
    by (simp add: ex_world_after_def spec_methods_def spec_magnetism_def uniform2_def zeroed_def)
  moreover have "avgEnergy (master ex_world_after) 0 = Some (- 8)"
    "avgMag (master ex_world_after) 0 = Some 1"
    by (simp_all add: ex_world_after_def)
  ultimately show ?thesis using ex_simulate by simp
qed

text \<open>
  C1, amended. For every sweep \<open>i\<close> of a run of \<^verbatim>\<open>simulate\<close> that returns, rank 0 computes
  the energy and the magnetism over its lattice as it stands at the start of sweep \<open>i\<close>,
  that is after sweeps \<open>0 .. i - 1\<close> and before any receive of sweep \<open>i\<close>, and stores them
  at index \<open>i\<close>, where they stay: \<^verbatim>\<open>avgEnergy[i]\<close> and \<^verbatim>\<open>avgMag[i]\<close> do not include the spin
  updates of sweep \<open>i\<close>.
\<close>

theorem stats_before_gather:
  assumes "simulate M G arrive w = Some (st, w')" and "i < nat (loops (master w))"
  shows "\<exists>wi. sweeps M G arrive [0..<i] w = Some wi \<and>
           avgEnergy (master w') i = Some (calculate_energy M (master wi)) \<and>
           avgMag (master w') i =
             Some (calculate_magnetism M
                    ((master wi)\<lparr>avgEnergy := (avgEnergy (master wi))(i \<mapsto> calculate_energy M (master wi))\<rparr>))"
proof -
  let ?n = "nat (loops (master w))"
  from assms(1) have s: "sweeps M G arrive [0..<?n] w = Some w'"
    by (auto simp: simulate_def split: option.splits)
  have "[0..<?n] = [0..<i] @ i # [Suc i..<?n]"
    using assms(2) by (metis upt_conv_Cons upt_add_eq_append le0 le_add_diff_inverse less_imp_le_nat plus_nat.add_0)
  with s have "sweeps M G arrive ([0..<i] @ i # [Suc i..<?n]) w = Some w'" by simp
  from sweeps_stats [OF this] obtain wi where
    "sweeps M G arrive [0..<i] w = Some wi"
    "avgEnergy (master w') i = Some (calculate_energy M (master wi))"
    "avgMag (master w') i = avgMag (record_stats M i (master wi)) i"
    by auto
  then show ?thesis by (auto simp: record_stats_avgMag)
qed

theorem stats_before_gather_witness:
  "simulate (spec_methods ex_draws) ex_G in_order ex_world = Some (EXIT_SUCCESS, ex_world_after) \<and>
   (0::nat) < nat (loops (master ex_world)) \<and>
   avgEnergy (master ex_world_after) 0 =
     Some (calculate_energy (spec_methods ex_draws) (master ex_world)) \<and>
   calculate_energy (spec_methods ex_draws) (master ex_world) = - 8"
proof -
  have l: "(0::nat) < nat (loops (master ex_world))"
    by (simp add: ex_world_def uniform2_def zeroed_def)
  from stats_before_gather [OF ex_simulate l]
  have "avgEnergy (master ex_world_after) 0 =
     Some (calculate_energy (spec_methods ex_draws) (master ex_world))"
    by simp
  moreover have "calculate_energy (spec_methods ex_draws) (master ex_world) = - 8"
    using ex_energy_before by (simp add: spec_methods_def ex_world_def)
  ultimately show ?thesis using ex_simulate l by simp
qed

section \<open>How a run ends\<close>

lemma do_clear_fields [simp]:
  "loops (do_clear M l) = loops l"
  "lsize (do_clear M l) = lsize l"
  "avgEnergy (do_clear M l) = avgEnergy l"
  "avgMag (do_clear M l) = avgMag l"
  by (simp_all add: do_clear_def split_beta)

lemma clear_and_save_fields [simp]:
  "slaves (clear_and_save M w) = slaves w"
  "inflight (clear_and_save M w) = inflight w"
  "master (clear_and_save M w) = do_clear M (master w)"
  by (simp_all add: clear_and_save_def Let_def)

lemma simulate_returns:
  assumes "inflight w = []"
    and "0 \<le> rows_per_slave G"
    and "\<And>i ms. mset (arrive i ms) = mset ms"
    and "length (slaves w) * nat (rows_per_slave G) = nat (lsize (master w))"
  shows "\<exists>w'. simulate M G arrive w = Some (EXIT_SUCCESS, w')"
proof -
  have "\<exists>w'. sweeps M G arrive [0..<nat (loops (master w))] w = Some w'"
    using assms by (intro sweeps_returns) auto
  then show ?thesis by (auto simp: simulate_def)
qed

lemma simulate_blocks:
  assumes "inflight w = []"
    and "0 \<le> rows_per_slave G"
    and "\<And>i ms. mset (arrive i ms) = mset ms"
    and "length (slaves w) * nat (rows_per_slave G) < nat (lsize (master w))"
    and "0 < loops (master w)"
  shows "simulate M G arrive w = None"
proof -
  have "[0..<nat (loops (master w))] \<noteq> []" using assms(5) by simp
  then have "sweeps M G arrive [0..<nat (loops (master w))] w = None"
    using assms(1-4) by (intro sweeps_blocks) auto
  then show ?thesis by (simp add: simulate_def)
qed

lemma simulate_status:
  "simulate M G arrive w = Some (st, w') \<Longrightarrow> st = EXIT_SUCCESS"
  by (auto simp: simulate_def split: option.splits)

lemma initialise_Some:
  assumes "initialise M G arrive w = Some (st, w')"
  shows "\<exists>w2. simulate M G arrive (clear_and_save M w) = Some (st, w2) \<and>
           master w' = (master w2)\<lparr>complete := True\<rparr>"
  using assms by (auto simp: initialise_def Let_def split: option.splits)

text \<open>
  C8. A run of \<^verbatim>\<open>initialise\<close> that returns has set \<^verbatim>\<open>complete\<close> and has written the
  entries \<open>0 .. loops - 1\<close> of \<^verbatim>\<open>avgEnergy\<close> and of \<^verbatim>\<open>avgMag\<close> and no other entry, so that
  arrays that start empty hold exactly \<open>loops\<close> entries; the entries are written in sweep
  order, since after the first \<open>k\<close> sweeps exactly the entries \<open>0 .. k - 1\<close> are written.
  The run does return, with \<^verbatim>\<open>EXIT_SUCCESS\<close>, whenever the rows of the ranks other than 0
  make up the whole lattice.
\<close>

theorem stats_entries:
  assumes "inflight w = []"
    and "0 \<le> rows_per_slave G"
    and "\<And>i ms. mset (arrive i ms) = mset ms"
  shows "(length (slaves w) * nat (rows_per_slave G) = nat (lsize (master w)) \<longrightarrow>
            (\<exists>w'. initialise M G arrive w = Some (EXIT_SUCCESS, w'))) \<and>
         (\<forall>st w'. initialise M G arrive w = Some (st, w') \<longrightarrow>
            complete (master w') \<and>
            dom (avgEnergy (master w')) = dom (avgEnergy (master w)) \<union> {0..<nat (loops (master w))} \<and>
            dom (avgMag (master w')) = dom (avgMag (master w)) \<union> {0..<nat (loops (master w))} \<and>
            (avgEnergy (master w) = Map.empty \<longrightarrow>
               card (dom (avgEnergy (master w'))) = nat (loops (master w))) \<and>
            (avgMag (master w) = Map.empty \<longrightarrow>
               card (dom (avgMag (master w'))) = nat (loops (master w))) \<and>
            (\<forall>k \<le> nat (loops (master w)).
               \<exists>wk. sweeps M G arrive [0..<k] (clear_and_save M w) = Some wk \<and>
                 dom (avgEnergy (master wk)) = dom (avgEnergy (master w)) \<union> {0..<k} \<and>
                 dom (avgMag (master wk)) = dom (avgMag (master w)) \<union> {0..<k}))"
proof (intro conjI impI allI)
  assume c: "length (slaves w) * nat (rows_per_slave G) = nat (lsize (master w))"
  have "\<exists>w2. simulate M G arrive (clear_and_save M w) = Some (EXIT_SUCCESS, w2)"
    using assms c by (intro simulate_returns) simp_all
  then show "\<exists>w'. initialise M G arrive w = Some (EXIT_SUCCESS, w')"
    by (auto simp: initialise_def Let_def)
next
  fix st w'
  assume i: "initialise M G arrive w = Some (st, w')"
  let ?n = "nat (loops (master w))"
  let ?w0 = "clear_and_save M w"
  from initialise_Some [OF i] obtain w2 where
    w2: "simulate M G arrive ?w0 = Some (st, w2)" and m: "master w' = (master w2)\<lparr>complete := True\<rparr>"
    by blast
  from w2 have s: "sweeps M G arrive [0..<?n] ?w0 = Some w2"
    by (auto simp: simulate_def split: option.splits)
  show "complete (master w')" by (simp add: m)
  show e: "dom (avgEnergy (master w')) = dom (avgEnergy (master w)) \<union> {0..<?n}"
    using sweeps_dom(1) [OF s] by (simp add: m)
  show g: "dom (avgMag (master w')) = dom (avgMag (master w)) \<union> {0..<?n}"
    using sweeps_dom(2) [OF s] by (simp add: m)
  { assume "avgEnergy (master w) = Map.empty"
    with e show "card (dom (avgEnergy (master w'))) = ?n" by simp }
  { assume "avgMag (master w) = Map.empty"
    with g show "card (dom (avgMag (master w'))) = ?n" by simp }
  { fix k assume k: "k \<le> ?n"
    then have "[0..<?n] = [0..<k] @ [k..<?n]"
      using upt_add_eq_append [of 0 k "?n - k"] by simp
    with s obtain wk where wk: "sweeps M G arrive [0..<k] ?w0 = Some wk"
      by (auto simp: sweeps_append split: option.splits)
    from sweeps_dom [OF wk]
    show "\<exists>wk. sweeps M G arrive [0..<k] ?w0 = Some wk \<and>
                 dom (avgEnergy (master wk)) = dom (avgEnergy (master w)) \<union> {0..<k} \<and>
                 dom (avgMag (master wk)) = dom (avgMag (master w)) \<union> {0..<k}"
      using wk by simp }
qed

theorem stats_entries_witness:
  "inflight ex_world = [] \<and> 0 \<le> rows_per_slave ex_G \<and>
   (\<forall>i ms. mset (in_order i ms) = mset ms) \<and>
   (\<exists>w'. initialise (spec_methods ex_draws) ex_G in_order ex_world = Some (EXIT_SUCCESS, w') \<and>
      complete (master w') \<and> dom (avgEnergy (master w')) = {0} \<and>
      card (dom (avgMag (master w'))) = 1)"
proof -
  have h1: "inflight ex_world = []" by (simp add: ex_world_def)
  have h2: "0 \<le> rows_per_slave ex_G" by (simp add: ex_G_def)
  have h3: "mset (in_order i ms) = mset ms" for i ms by (simp add: in_order_def)
  note t = stats_entries [of ex_world ex_G in_order "spec_methods ex_draws", OF h1 h2 h3]
  have c: "length (slaves ex_world) * nat (rows_per_slave ex_G) = nat (lsize (master ex_world))"
    by (simp add: ex_world_def ex_G_def uniform2_def zeroed_def)
  have l: "nat (loops (master ex_world)) = 1" "avgEnergy (master ex_world) = Map.empty"
    "avgMag (master ex_world) = Map.empty"
    by (simp_all add: ex_world_def uniform2_def zeroed_def)
  from t have "length (slaves ex_world) * nat (rows_per_slave ex_G) = nat (lsize (master ex_world)) \<longrightarrow>
      (\<exists>w'. initialise (spec_methods ex_draws) ex_G in_order ex_world = Some (EXIT_SUCCESS, w'))"
    by (rule conjunct1)
  from this [rule_format, OF c] obtain w' where
    w': "initialise (spec_methods ex_draws) ex_G in_order ex_world = Some (EXIT_SUCCESS, w')" ..
  from t have "\<forall>st w'. initialise (spec_methods ex_draws) ex_G in_order ex_world = Some (st, w') \<longrightarrow>
      complete (master w') \<and>
      dom (avgEnergy (master w')) = dom (avgEnergy (master ex_world)) \<union> {0..<nat (loops (master ex_world))} \<and>
      dom (avgMag (master w')) = dom (avgMag (master ex_world)) \<union> {0..<nat (loops (master ex_world))} \<and>
      (avgEnergy (master ex_world) = Map.empty \<longrightarrow>
               card (dom (avgEnergy (master w'))) = nat (loops (master ex_world))) \<and>
      (avgMag (master ex_world) = Map.empty \<longrightarrow>
               card (dom (avgMag (master w'))) = nat (loops (master ex_world))) \<and>
      (\<forall>k \<le> nat (loops (master ex_world)).
         \<exists>wk. sweeps (spec_methods ex_draws) ex_G in_order [0..<k]
                 (clear_and_save (spec_methods ex_draws) ex_world) = Some wk \<and>
           dom (avgEnergy (master wk)) = dom (avgEnergy (master ex_world)) \<union> {0..<k} \<and>
           dom (avgMag (master wk)) = dom (avgMag (master ex_world)) \<union> {0..<k})"
    by (rule conjunct2)
  note u = this [THEN spec, THEN spec, THEN mp, OF w']
  have "complete (master w')" by (rule u [THEN conjunct1])
  moreover have "dom (avgEnergy (master w')) = {0}"
    using u [THEN conjunct2, THEN conjunct1] by (simp add: l)
  moreover have "card (dom (avgMag (master w'))) = 1"
    using u [THEN conjunct2, THEN conjunct2, THEN conjunct2, THEN conjunct2, THEN conjunct1]
    by (simp add: l)
  ultimately have "complete (master w') \<and> dom (avgEnergy (master w')) = {0} \<and>
      card (dom (avgMag (master w'))) = 1"
    by simp
  with w' h1 h2 h3 show ?thesis by blast
qed

section \<open>Rows that no rank sends\<close>

lemma replicate2: "replicate 2 x = [x, x]"
  by (simp add: numeral_2_eq_2)

lemma replicate3: "replicate 3 x = [x, x, x]"
  by (simp add: numeral_3_eq_3)

lemma ex_args_fields [simp]:
  "argc (ex_args rows) = 4" "n_arg (ex_args rows) = 1" "rows_arg (ex_args rows) = rows"
  "argv0 (ex_args rows) = ''ising''" "temp_arg (ex_args rows) = 1"
  by (simp_all add: ex_args_def)

lemma new_lattice_ex [simp]:
  "new_lattice M (ex_args rows) r = construct M r ''ising'' 1 rows 1"
  by (simp add: new_lattice_def)

text \<open>
  C10. Three ranks started as \<^verbatim>\<open>./ising 1 3 1\<close>: \<^verbatim>\<open>rows_per_slave\<close> is \<open>3 / 2 = 1\<close>, ranks 1
  and 2 send rows 0 and 1, and rank 0 waits for row 2, which no rank sends. \<^verbatim>\<open>simulate\<close>
  does not return on this lattice, so no status is propagated.
\<close>

theorem simulate_blocks_on_remainder:
  "main_mpi (spec_methods ex_draws) in_order 3 (ex_args 3) = Blocked \<and>
   simulate (spec_methods ex_draws) \<lparr>world_size = 3, rows_per_slave = 1\<rparr> in_order
     (clear_and_save (spec_methods ex_draws)
        (master_to_slaves_sync (group (spec_methods ex_draws) 3 (ex_args 3)))) = None"
proof -
  let ?M = "spec_methods ex_draws"
  let ?G = "\<lparr>world_size = 3, rows_per_slave = 1\<rparr>"
  let ?w = "clear_and_save ?M (master_to_slaves_sync (group ?M 3 (ex_args 3)))"
  have g: "group ?M 3 (ex_args 3) =
      \<lparr>master = zeroed 0 ''ising'' 1 3 1,
       slaves = [zeroed 1 ''ising'' 1 3 1, zeroed 2 ''ising'' 1 3 1],
       inflight = [], saved = []\<rparr>"
    by (simp add: group_def spec_methods_def upt_rec zeroed_def)
  have "simulate ?M ?G in_order ?w = None"
  proof (rule simulate_blocks)
    show "inflight ?w = []" by (simp add: g master_to_slaves_sync_def)
    show "0 \<le> rows_per_slave ?G" by simp
    show "mset (in_order i ms) = mset ms" for i ms by (simp add: in_order_def)
    show "length (slaves ?w) * nat (rows_per_slave ?G) < nat (lsize (master ?w))"
      by (simp add: g master_to_slaves_sync_def zeroed_def)
    show "0 < loops (master ?w)"
      by (simp add: g master_to_slaves_sync_def zeroed_def)
  qed
  moreover have "tdiv 3 2 = 1" by (simp add: tdiv_def)
  ultimately show ?thesis
    by (simp add: main_mpi_def initialise_def Let_def)
qed

section \<open>Checks on the command line and on the group\<close>

text \<open>
  C4. A group that consists of rank 0 alone, started with a valid command line: no
  check rejects it. Every process has constructed its lattice when \<^verbatim>\<open>main\<close> evaluates
  \<^verbatim>\<open>rows / (world_size - 1)\<close> with the divisor 0; nothing is printed and no status is
  returned.
\<close>

theorem no_worker_check:
  "main_mpi M arrive 1 (ex_args 2) = DivByZero (group M 1 (ex_args 2)) \<and>
   master (group M 1 (ex_args 2)) = construct M 0 ''ising'' 1 2 1 \<and>
   slaves (group M 1 (ex_args 2)) = []"
  by (simp add: main_mpi_def group_def)

text \<open>
  C7. The single-process \<^verbatim>\<open>main\<close> checks \<open>n\<close> and not the size: started with the size 0
  or \<open>- 5\<close> it constructs the lattice with that size and runs \<^verbatim>\<open>initialise\<close> on it. The
  message-passing \<^verbatim>\<open>main\<close> rejects the same command lines.
\<close>

theorem serial_main_runs_bad_size:
  "main_serial M sim (ex_args 0) =
     (case initialise_serial M sim (construct M 0 ''ising'' 1 0 1) of
        (status, w) \<Rightarrow> Finished status w) \<and>
   main_serial M sim (ex_args (- 5)) =
     (case initialise_serial M sim (construct M 0 ''ising'' 1 (- 5) 1) of
        (status, w) \<Rightarrow> Finished status w) \<and>
   main_mpi M arrive ws (ex_args 0) =
     Exit EXIT_FAILURE (CHR 0x27 # ''rows'' @ CHR 0x27 # '' has to be a positive integer'') \<and>
   main_mpi M arrive ws (ex_args (- 5)) =
     Exit EXIT_FAILURE (CHR 0x27 # ''rows'' @ CHR 0x27 # '' has to be a positive integer'')"
  by (simp add: main_serial_def main_mpi_def)

section \<open>What the other ranks hold when the first sweep starts\<close>

lemma ex_entry_eq:
  "ex_entry =
     \<lparr>master = (zeroed 0 ''ising'' 1 2 1)\<lparr>surface := [[1, 1], [1, 1]]\<rparr>,
      slaves = [zeroed 1 ''ising'' 1 2 1],
      inflight = [],
      saved = [(zeroed 0 ''ising'' 1 2 1)\<lparr>surface := [[1, 1], [1, 1]]\<rparr>]\<rparr>"
  by (simp add: ex_entry_def clear_and_save_def master_to_slaves_sync_def group_def
      spec_methods_def do_clear_def spec_clear_def recv_rows_def zeroed_def upt_rec Let_def
      replicate2)

text \<open>
  C2. Two ranks started as \<^verbatim>\<open>./ising 1 2 1\<close>, with a constructor that allocates a zeroed
  grid and a \<^verbatim>\<open>clear\<close> that sets every spin to 1. \<^verbatim>\<open>main\<close> runs \<^verbatim>\<open>master_to_slaves_sync\<close>
  before \<^verbatim>\<open>initialise\<close> clears the lattice of rank 0, so when sweep 0 starts rank 0 holds
  the cleared lattice, which it has saved, and rank 1 holds the lattice as constructed.
  Rank 1 updates that lattice, and the rows it sends replace the cleared lattice of
  rank 0.
\<close>

theorem first_sweep_copies_differ:
  "surface (master ex_entry) = [[1, 1], [1, 1]] \<and>
   map surface (saved ex_entry) = [[[1, 1], [1, 1]]] \<and>
   map surface (slaves ex_entry) = [[[0, 0], [0, 0]]] \<and>
   main_mpi (spec_methods ex_draws) in_order 2 (ex_args 2) = Finished EXIT_SUCCESS ex_final \<and>
   surface (master ex_final) = [[0, 0], [0, 0]]"
proof -
  let ?M = "spec_methods ex_draws"
  let ?G = "\<lparr>world_size = 2, rows_per_slave = 2\<rparr>"
  have sc: "slaves_compute ?M ?G [zeroed 1 ''ising'' 1 2 1] =
      [((zeroed 1 ''ising'' 1 2 1)\<lparr>rng := 104\<rparr>,
        [\<lparr>tag = 0, source = 1, payload = [0, 0]\<rparr>, \<lparr>tag = 1, source = 1, payload = [0, 0]\<rparr>])]"
    by (simp add: slaves_compute_def slave_sweep_def row_range_def Let_def zeroed_def
        compute_row_def spin_eval upt_rec replicate2)
  have e: "spec_energy ((zeroed 0 ''ising'' 1 2 1)\<lparr>surface := [[1, 1], [1, 1]]\<rparr>) = - 8"
    by (simp add: spec_energy_def zeroed_def Let_def cell_def upt_rec)
  have m: "spec_magnetism ((zeroed 0 ''ising'' 1 2 1)\<lparr>surface := [[1, 1], [1, 1]], avgEnergy := x\<rparr>) = 1" for x
    by (simp add: spec_magnetism_def zeroed_def Let_def)
  have rs: "record_stats ?M 0 ((zeroed 0 ''ising'' 1 2 1)\<lparr>surface := [[1, 1], [1, 1]]\<rparr>) =
      (zeroed 0 ''ising'' 1 2 1)\<lparr>surface := [[1, 1], [1, 1]], avgEnergy := [0 \<mapsto> - 8], avgMag := [0 \<mapsto> 1]\<rparr>"
    using e m by (simp add: record_stats_def Let_def spec_methods_def zeroed_def)
  have sw: "sweep ?M ?G in_order 0 ex_entry =
      Some \<lparr>master = (zeroed 0 ''ising'' 1 2 1)\<lparr>avgEnergy := [0 \<mapsto> - 8], avgMag := [0 \<mapsto> 1]\<rparr>,
            slaves = [(zeroed 1 ''ising'' 1 2 1)\<lparr>rng := 104\<rparr>],
            inflight = [],
            saved = [(zeroed 0 ''ising'' 1 2 1)\<lparr>surface := [[1, 1], [1, 1]]\<rparr>]\<rparr>"
    unfolding sweep_def ex_entry_eq
    apply (simp only: world.simps rs sc)
    apply (simp add: Let_def in_order_def zeroed_def upt_rec master_to_slaves_sync_def recv_rows_def
        replicate2)
    done
  have "loops (master ex_entry) = 1" by (simp add: ex_entry_eq zeroed_def)
  then have si: "simulate ?M ?G in_order ex_entry =
      Some (EXIT_SUCCESS,
        \<lparr>master = (zeroed 0 ''ising'' 1 2 1)\<lparr>avgEnergy := [0 \<mapsto> - 8], avgMag := [0 \<mapsto> 1]\<rparr>,
         slaves = [(zeroed 1 ''ising'' 1 2 1)\<lparr>rng := 104\<rparr>],
         inflight = [],
         saved = [(zeroed 0 ''ising'' 1 2 1)\<lparr>surface := [[1, 1], [1, 1]]\<rparr>]\<rparr>)"
    by (simp add: simulate_def upt_rec sw)
  have t: "tdiv 2 1 = 2" by (simp add: tdiv_def)
  have "main_mpi ?M in_order 2 (ex_args 2) = Finished EXIT_SUCCESS ex_final"
    unfolding main_mpi_def initialise_def ex_entry_def [symmetric]
    by (simp add: t si Let_def ex_final_def ex_entry_def [symmetric])
  moreover have "surface (master ex_final) = [[0, 0], [0, 0]]"
    by (simp add: ex_final_def zeroed_def replicate2)
  ultimately show ?thesis by (simp add: ex_entry_eq zeroed_def replicate2)
qed

section \<open>The spin update rule\<close>

lemma cell_flipped_same:
  assumes "y < length g" and "x < length (g ! y)"
  shows "cell (flipped g (x, y)) x y = - cell g x y"
  using assms by (simp add: flipped_def cell_def)

lemma cell_flipped_other:
  assumes "(x', y') \<noteq> (x, y)"
  shows "cell (flipped g (x, y)) x' y' = cell g x' y'"
proof (cases "y' = y")
  case True
  with assms have "x' \<noteq> x" by simp
  then show ?thesis
    using True by (cases "y < length g") (simp_all add: flipped_def cell_def list_update_beyond)
next
  case False
  then show ?thesis by (simp add: flipped_def cell_def)
qed

lemma valid_spins_cell:
  assumes "valid_spins n g" and "x < n" and "y < n"
  shows "cell g x y = 1 \<or> cell g x y = - 1"
proof -
  from assms have "g ! y \<in> set g" by (simp add: valid_spins_def)
  moreover from assms(1) have "\<forall>r \<in> set g. length r = n \<and> (\<forall>s \<in> set r. s = 1 \<or> s = - 1)"
    by (simp add: valid_spins_def)
  ultimately have "length (g ! y) = n" "\<forall>s \<in> set (g ! y). s = 1 \<or> s = - 1"
    by blast+
  with assms(2) show ?thesis by (simp add: cell_def)
qed

lemma flipped_differs:
  assumes "valid_spins n g" and "x < n" and "y < n"
  shows "flipped g (x, y) \<noteq> g"
proof
  assume "flipped g (x, y) = g"
  then have "cell (flipped g (x, y)) x y = cell g x y" by simp
  moreover from assms have "y < length g" "x < length (g ! y)"
    by (simp_all add: valid_spins_def)
  ultimately have "- cell g x y = cell g x y" by (simp add: cell_flipped_same)
  with valid_spins_cell [OF assms] show False by auto
qed

text \<open>
  C9. The update of the cell \<open>(x, y)\<close> of a valid spin configuration at a temperature
  above 0 is a function of the configuration and the draw. With \<open>\<Delta>E \<le> 0\<close> the result
  is the configuration with the cell flipped, whatever the draw. With \<open>\<Delta>E > 0\<close> the
  result is the flipped configuration exactly when the draw is below
  \<open>exp (- \<Delta>E / T)\<close>, and the unchanged configuration for every other draw. In both
  results every cell but \<open>(x, y)\<close> keeps its spin, the flipped cell has the opposite
  spin, and the member function built from the rule changes nothing else of the lattice
  object but the position of the random source.
\<close>

theorem update_rule:
  assumes "valid_spins n g" and "x < n" and "y < n" and "0 < T"
  shows "(delta_E n g (x, y) \<le> 0 \<longrightarrow> update n T g (x, y) draw = flipped g (x, y)) \<and>
         (0 < delta_E n g (x, y) \<longrightarrow>
            (update n T g (x, y) draw = flipped g (x, y)) =
              (draw < exp (- real_of_int (delta_E n g (x, y)) / T))) \<and>
         (0 < delta_E n g (x, y) \<and> exp (- real_of_int (delta_E n g (x, y)) / T) \<le> draw \<longrightarrow>
            update n T g (x, y) draw = g) \<and>
         (update n T g (x, y) draw = g \<or> update n T g (x, y) draw = flipped g (x, y)) \<and>
         cell (flipped g (x, y)) x y = - cell g x y \<and>
         cell (flipped g (x, y)) x y \<noteq> cell g x y \<and>
         (\<forall>x' y'. (x', y') \<noteq> (x, y) \<longrightarrow>
            cell (update n T g (x, y) draw) x' y' = cell g x' y') \<and>
         valid_spins n (update n T g (x, y) draw) \<and>
         (lsize l = int n \<and> surface l = g \<and> temperature l = T \<longrightarrow>
            do_spin (spec_methods d) (x, y) l =
              l\<lparr>surface := update n T g (x, y) (d (rng l)), rng := Suc (rng l)\<rparr>)"
proof -
  have ne: "flipped g (x, y) \<noteq> g" by (rule flipped_differs [OF assms(1-3)])
  from assms have in_range: "y < length g" "x < length (g ! y)"
    by (simp_all add: valid_spins_def)
  have same: "cell (flipped g (x, y)) x y = - cell g x y"
    by (rule cell_flipped_same [OF in_range])
  have "cell g x y \<noteq> 0" using valid_spins_cell [OF assms(1-3)] by auto
  with same have diff: "cell (flipped g (x, y)) x y \<noteq> cell g x y" by simp
  have other: "\<forall>x' y'. (x', y') \<noteq> (x, y) \<longrightarrow> cell (update n T g (x, y) draw) x' y' = cell g x' y'"
    by (simp add: update_def cell_flipped_other)
  have vf: "valid_spins n (flipped g (x, y))"
  proof -
    have "\<forall>s \<in> set ((g ! y)[x := - cell g x y]). s = 1 \<or> s = - 1"
    proof
      fix s assume "s \<in> set ((g ! y)[x := - cell g x y])"
      then have "s = - cell g x y \<or> s \<in> set (g ! y)"
        using set_update_subset_insert [of "g ! y" x "- cell g x y"] by auto
      moreover have "\<forall>s \<in> set (g ! y). s = 1 \<or> s = - 1"
        using assms(1) nth_mem [OF in_range(1)] unfolding valid_spins_def by blast
      ultimately show "s = 1 \<or> s = - 1"
        using valid_spins_cell [OF assms(1-3)] by auto
    qed
    moreover have "length ((g ! y)[x := - cell g x y]) = n"
      using assms(1) nth_mem [OF in_range(1)] unfolding valid_spins_def by simp
    moreover have "\<forall>r \<in> set g. length r = n \<and> (\<forall>s \<in> set r. s = 1 \<or> s = - 1)"
      using assms(1) by (simp add: valid_spins_def)
    moreover have "set (g[y := (g ! y)[x := - cell g x y]]) \<subseteq> insert ((g ! y)[x := - cell g x y]) (set g)"
      by (rule set_update_subset_insert)
    ultimately have "\<forall>r \<in> set (g[y := (g ! y)[x := - cell g x y]]).
        length r = n \<and> (\<forall>s \<in> set r. s = 1 \<or> s = - 1)"
      by blast
    moreover have "length g = n" using assms(1) by (simp add: valid_spins_def)
    ultimately show ?thesis
      by (simp add: valid_spins_def flipped_def)
  qed
  have v: "valid_spins n (update n T g (x, y) draw)"
    using vf assms(1) by (simp add: update_def)
  have m: "lsize l = int n \<and> surface l = g \<and> temperature l = T \<longrightarrow>
            do_spin (spec_methods d) (x, y) l =
              l\<lparr>surface := update n T g (x, y) (d (rng l)), rng := Suc (rng l)\<rparr>"
    by (simp add: do_spin_def spec_methods_def spec_spin_def)
  have a: "delta_E n g (x, y) \<le> 0 \<longrightarrow> update n T g (x, y) draw = flipped g (x, y)"
    by (simp add: update_def accepted_def)
  have b: "0 < delta_E n g (x, y) \<longrightarrow>
            (update n T g (x, y) draw = flipped g (x, y)) =
              (draw < exp (- real_of_int (delta_E n g (x, y)) / T))"
    using ne by (auto simp: update_def accepted_def)
  have c: "0 < delta_E n g (x, y) \<and> exp (- real_of_int (delta_E n g (x, y)) / T) \<le> draw \<longrightarrow>
            update n T g (x, y) draw = g"
    by (auto simp: update_def accepted_def)
  have e: "update n T g (x, y) draw = g \<or> update n T g (x, y) draw = flipped g (x, y)"
    by (simp add: update_def)
  note r1 = conjI [OF v m]
  note r2 = conjI [OF other r1]
  note r3 = conjI [OF diff r2]
  note r4 = conjI [OF same r3]
  note r5 = conjI [OF e r4]
  note r6 = conjI [OF c r5]
  note r7 = conjI [OF b r6]
  show ?thesis by (rule conjI [OF a r7])
qed


lemma ex_valid: "valid_spins 2 [[1, 1], [1, 1]]"
  by (simp add: valid_spins_def)

theorem update_rule_witness:
  "valid_spins 2 [[1, 1], [1, 1]] \<and> (0::nat) < 2 \<and> (0::real) < 1 \<and>
   delta_E 2 [[1, 1], [1, 1]] (0, 0) = 8 \<and>
   update 2 1 [[1, 1], [1, 1]] (0, 0) 0 = [[- 1, 1], [1, 1]] \<and>
   update 2 1 [[1, 1], [1, 1]] (0, 0) (9 / 10) = [[1, 1], [1, 1]] \<and>
   delta_E 2 [[- 1, 1], [1, 1]] (1, 0) = 0 \<and>
   update 2 1 [[- 1, 1], [1, 1]] (1, 0) (9 / 10) = [[- 1, - 1], [1, 1]]"
proof -
  have h: "(0::nat) < 2" "(0::real) < 1" by simp_all
  have d: "delta_E 2 [[1, 1], [1, 1]] (0, 0) = 8"
    by (simp add: delta_E_def neighbours_def cell_def)
  have f: "flipped [[1, 1], [1, 1]] (0, 0) = [[- 1, 1], [1, 1]]"
    by (simp add: flipped_def cell_def)
  note r = update_rule [OF ex_valid h(1) h(1) h(2)]
  from r [of 0] have "0 < delta_E 2 [[1, 1], [1, 1]] (0, 0) \<longrightarrow>
      (update 2 1 [[1, 1], [1, 1]] (0, 0) 0 = flipped [[1, 1], [1, 1]] (0, 0)) =
        (0 < exp (- real_of_int (delta_E 2 [[1, 1], [1, 1]] (0, 0)) / 1))"
    by (rule conjunct2 [THEN conjunct1])
  then have one: "update 2 1 [[1, 1], [1, 1]] (0, 0) 0 = [[- 1, 1], [1, 1]]"
    by (simp add: d f)
  from r [of "9 / 10"] have
    "0 < delta_E 2 [[1, 1], [1, 1]] (0, 0) \<and>
       exp (- real_of_int (delta_E 2 [[1, 1], [1, 1]] (0, 0)) / 1) \<le> 9 / 10 \<longrightarrow>
     update 2 1 [[1, 1], [1, 1]] (0, 0) (9 / 10) = [[1, 1], [1, 1]]"
    by (rule conjunct2 [THEN conjunct2, THEN conjunct1])
  then have two: "update 2 1 [[1, 1], [1, 1]] (0, 0) (9 / 10) = [[1, 1], [1, 1]]"
    using exp_m8 by (simp add: d less_imp_le)
  have v: "valid_spins 2 [[- 1, 1], [1, 1]]" by (simp add: valid_spins_def)
  have d': "delta_E 2 [[- 1, 1], [1, 1]] (1, 0) = 0"
    by (simp add: delta_E_def neighbours_def cell_def)
  have f': "flipped [[- 1, 1], [1, 1]] (1, 0) = [[- 1, - 1], [1, 1]]"
    by (simp add: flipped_def cell_def)
  have h1: "(1::nat) < 2" by simp
  from update_rule [OF v h1 h(1) h(2), of "9 / 10"] have
    "delta_E 2 [[- 1, 1], [1, 1]] (1, 0) \<le> 0 \<longrightarrow>
       update 2 1 [[- 1, 1], [1, 1]] (1, 0) (9 / 10) = flipped [[- 1, 1], [1, 1]] (1, 0)"
    by (rule conjunct1)
  then have three: "update 2 1 [[- 1, 1], [1, 1]] (1, 0) (9 / 10) = [[- 1, - 1], [1, 1]]"
    using d' f' by simp
  from ex_valid h d one two d' three show ?thesis by simp
qed

section \<open>The order of the updates of one rank\<close>

lemma do_spin_fields [simp]:
  "lsize (do_spin M c l) = lsize l"
  "loops (do_spin M c l) = loops l"
  "temperature (do_spin M c l) = temperature l"
  by (simp_all add: do_spin_def split_beta)

lemma fold_do_spin_lsize [simp]: "lsize (fold (do_spin M) cs l) = lsize l"
  by (induction cs arbitrary: l) simp_all

lemma compute_row_fold:
  "compute_row M j l = fold (do_spin M) (map (\<lambda>k. (k, j)) [0..<nat (lsize l)]) l"
  by (simp add: compute_row_def fold_map comp_def)

lemma compute_row_lsize [simp]: "lsize (compute_row M j l) = lsize l"
  by (simp add: compute_row_fold)

lemma slave_rows_fold:
  "fst (slave_rows M r js l) = fold (do_spin M) (cells_of (nat (lsize l)) js) l"
proof (induction js arbitrary: l)
  case Nil
  then show ?case by (simp add: cells_of_def)
next
  case (Cons j js)
  have "fst (slave_rows M r (j # js) l) = fst (slave_rows M r js (compute_row M j l))"
    by (simp add: slave_rows_Cons del: slave_rows.simps(2))
  also have "\<dots> = fold (do_spin M) (cells_of (nat (lsize l)) js) (compute_row M j l)"
    using Cons.IH [of "compute_row M j l"] by simp
  also have "\<dots> = fold (do_spin M) (cells_of (nat (lsize l)) (j # js)) l"
    by (simp add: cells_of_def compute_row_fold)
  finally show ?case .
qed

lemma row_local_do_spin:
  assumes "row_local M" and "y \<noteq> snd c"
  shows "surface (do_spin M c l) ! y = surface l ! y"
proof -
  from assms(1) have "\<forall>c l y. y \<noteq> snd c \<longrightarrow> fst (calculate_spin M c l) ! y = surface l ! y"
    unfolding row_local_def .
  with assms(2) have "fst (calculate_spin M c l) ! y = surface l ! y" by blast
  then show ?thesis by (simp add: do_spin_def split_beta)
qed

lemma row_local_fold:
  assumes "row_local M" and "\<forall>c \<in> set cs. snd c \<noteq> y"
  shows "surface (fold (do_spin M) cs l) ! y = surface l ! y"
  using assms(2)
proof (induction cs arbitrary: l)
  case Nil
  then show ?case by simp
next
  case (Cons c cs)
  then have "surface (fold (do_spin M) cs (do_spin M c l)) ! y = surface (do_spin M c l) ! y"
    by simp
  also have "\<dots> = surface l ! y"
    using Cons.prems by (intro row_local_do_spin [OF assms(1)]) simp
  finally show ?case by simp
qed

lemma cells_of_rows: "c \<in> set (cells_of n js) \<Longrightarrow> snd c \<in> set js"
  by (auto simp: cells_of_def)

text \<open>
  C6, as stated, fails: rank 1 of the small group updates the cells \<open>(0, 0)\<close> and \<open>(1, 0)\<close>
  of the uniform lattice with the draws 0 and 0.9. The first flip is accepted. The code
  then finds \<open>\<Delta>E = 0\<close> at \<open>(1, 0)\<close>, since it reads the spin that it has just flipped at
  \<open>(0, 0)\<close>, and flips the second cell too; on the lattice of the end of the previous
  sweep \<open>\<Delta>E\<close> is 8 there and the draw 0.9 rejects the flip.
\<close>

theorem same_sweep_reads_counterexample:
  "surface (fst (slave_sweep (spec_methods ex_draws) ex_G 1 (uniform2 1))) ! 0 = [- 1, - 1] \<and>
   surface (frozen_sweep (spec_methods ex_draws) ex_G 1 (uniform2 1)) ! 0 = [- 1, 1]"
  using rank1_sweep rank1_frozen by simp

text \<open>
  C6, amended. Within a sweep a rank updates the cells of its rows in place, row by row
  and column by column, on its own copy of the lattice: each update is applied to the
  copy as the rank's earlier updates of the same sweep have left it. When
  \<^verbatim>\<open>calculate_spin\<close> writes to the addressed row only, the rows outside the rank's range
  hold their content of the start of the sweep at every update, so no update observes
  an update that another rank makes in the same sweep.
\<close>

theorem updates_in_place:
  assumes "row_local M" and "1 \<le> r" and "0 \<le> rows_per_slave G"
  shows "fst (slave_sweep M G r l) =
           fold (do_spin M)
             (cells_of (nat (lsize l)) [(r - 1) * nat (rows_per_slave G)..<r * nat (rows_per_slave G)]) l \<and>
         (\<forall>t y. y \<notin> {(r - 1) * nat (rows_per_slave G)..<r * nat (rows_per_slave G)} \<longrightarrow>
            surface (fold (do_spin M)
              (take t (cells_of (nat (lsize l))
                 [(r - 1) * nat (rows_per_slave G)..<r * nat (rows_per_slave G)])) l) ! y =
            surface l ! y)"
proof (intro conjI allI impI)
  let ?js = "[(r - 1) * nat (rows_per_slave G)..<r * nat (rows_per_slave G)]"
  show "fst (slave_sweep M G r l) = fold (do_spin M) (cells_of (nat (lsize l)) ?js) l"
    unfolding slave_sweep_eq [OF assms(2,3)] by (rule slave_rows_fold)
  fix t y
  assume y: "y \<notin> {(r - 1) * nat (rows_per_slave G)..<r * nat (rows_per_slave G)}"
  have "\<forall>c \<in> set (take t (cells_of (nat (lsize l)) ?js)). snd c \<noteq> y"
  proof
    fix c assume "c \<in> set (take t (cells_of (nat (lsize l)) ?js))"
    then have "c \<in> set (cells_of (nat (lsize l)) ?js)" by (rule in_set_takeD)
    then have "snd c \<in> set ?js" by (rule cells_of_rows)
    with y show "snd c \<noteq> y" by auto
  qed
  then show "surface (fold (do_spin M) (take t (cells_of (nat (lsize l)) ?js)) l) ! y = surface l ! y"
    by (rule row_local_fold [OF assms(1)])
qed

lemma spec_row_local: "row_local (spec_methods d)"
  by (auto simp: row_local_def spec_methods_def spec_spin_def update_def flipped_def)

theorem updates_in_place_witness:
  "row_local (spec_methods ex_draws) \<and> (1::nat) \<le> 1 \<and> 0 \<le> rows_per_slave ex_G \<and>
   fst (slave_sweep (spec_methods ex_draws) ex_G 1 (uniform2 1)) =
     fold (do_spin (spec_methods ex_draws)) [(0, 0), (1, 0)] (uniform2 1) \<and>
   surface (fold (do_spin (spec_methods ex_draws)) [(0, 0)] (uniform2 1)) ! 1 = [1, 1]"
proof -
  have h: "(1::nat) \<le> 1" "0 \<le> rows_per_slave ex_G" by (simp_all add: ex_G_def)
  note u = updates_in_place [OF spec_row_local h, of ex_draws "uniform2 1"]
  have c: "cells_of (nat (lsize (uniform2 1))) [(1 - 1) * nat (rows_per_slave ex_G)..<1 * nat (rows_per_slave ex_G)] =
      [(0, 0), (1, 0)]"
    by (simp add: cells_of_def uniform2_def zeroed_def ex_G_def upt_rec)
  from u [THEN conjunct1] have one:
    "fst (slave_sweep (spec_methods ex_draws) ex_G 1 (uniform2 1)) =
       fold (do_spin (spec_methods ex_draws)) [(0, 0), (1, 0)] (uniform2 1)"
    unfolding c .
  have "(1::nat) \<notin> {(1 - 1) * nat (rows_per_slave ex_G)..<1 * nat (rows_per_slave ex_G)}"
    by (simp add: ex_G_def)
  from u [THEN conjunct2, THEN spec, THEN spec, THEN mp, OF this, of 1]
  have two: "surface (fold (do_spin (spec_methods ex_draws)) [(0, 0)] (uniform2 1)) ! 1 = [1, 1]"
    unfolding c by (simp add: uniform2_def zeroed_def)
  from spec_row_local h one two show ?thesis by simp
qed

section \<open>Reassembly\<close>

lemma slave_rows_payload:
  assumes "row_local M" and "distinct js" and "m \<in> set (snd (slave_rows M r js l))"
  shows "payload m = surface (fst (slave_rows M r js l)) ! tag m"
  using assms(2,3)
proof (induction js arbitrary: l)
  case Nil
  then show ?case by simp
next
  case (Cons j js)
  let ?l1 = "compute_row M j l"
  from Cons.prems(1) have j: "j \<notin> set js" and d: "distinct js" by simp_all
  have f: "fst (slave_rows M r (j # js) l) = fst (slave_rows M r js ?l1)"
    by (simp add: slave_rows_Cons del: slave_rows.simps(2))
  from Cons.prems(2) consider
    (head) "m = \<lparr>tag = j, source = r, payload = surface ?l1 ! j\<rparr>"
    | (tail) "m \<in> set (snd (slave_rows M r js ?l1))"
    by (auto simp add: slave_rows_Cons simp del: slave_rows.simps(2))
  then show ?case
  proof cases
    case head
    have "\<forall>c \<in> set (cells_of (nat (lsize ?l1)) js). snd c \<noteq> j"
      using j cells_of_rows by blast
    then have "surface (fst (slave_rows M r js ?l1)) ! j = surface ?l1 ! j"
      unfolding slave_rows_fold by (rule row_local_fold [OF assms(1)])
    with head show ?thesis unfolding f by simp
  next
    case tail
    from Cons.IH [OF d tail] show ?thesis unfolding f .
  qed
qed

lemma sent_by:
  "m \<in> set (concat (map snd (slaves_compute M G ls))) \<longleftrightarrow>
     (\<exists>i < length ls. m \<in> set (snd (slave_sweep M G (Suc i) (ls ! i))))"
proof
  assume "m \<in> set (concat (map snd (slaves_compute M G ls)))"
  then obtain p where p: "p \<in> set (enumerate 1 ls)" and m: "m \<in> set (snd (slave_sweep M G (fst p) (snd p)))"
    by (auto simp: slaves_compute_def)
  from p have "1 \<le> fst p" "fst p < length ls + 1" "ls ! (fst p - 1) = snd p"
    by (simp_all add: in_set_enumerate_eq)
  with m have "fst p - 1 < length ls \<and> m \<in> set (snd (slave_sweep M G (Suc (fst p - 1)) (ls ! (fst p - 1))))"
    by simp
  then show "\<exists>i < length ls. m \<in> set (snd (slave_sweep M G (Suc i) (ls ! i)))" by blast
next
  assume "\<exists>i < length ls. m \<in> set (snd (slave_sweep M G (Suc i) (ls ! i)))"
  then obtain i where i: "i < length ls" and m: "m \<in> set (snd (slave_sweep M G (Suc i) (ls ! i)))"
    by blast
  from i have "(Suc i, ls ! i) \<in> set (enumerate 1 ls)"
    by (simp add: in_set_enumerate_eq)
  with m show "m \<in> set (concat (map snd (slaves_compute M G ls)))"
    by (force simp: slaves_compute_def)
qed

lemma sweep_rows:
  assumes s: "sweep M G arrive i w = Some w'"
    and empty: "inflight w = []"
    and rps: "0 \<le> rows_per_slave G"
    and fair: "\<And>ms. mset (arrive i ms) = mset ms"
    and fit: "length (slaves w) * nat (rows_per_slave G) \<le> nat (lsize (master w))"
    and shape: "length (surface (master w)) = nat (lsize (master w))"
    and m: "m \<in> set (concat (map snd (slaves_compute M G (slaves w))))"
  shows "surface (master w') ! tag m = payload m"
proof -
  let ?sent = "concat (map snd (slaves_compute M G (slaves w)))"
  from sweep_Some [OF s empty rps fair] obtain g' where
    g: "master w' = (record_stats M i (master w))\<lparr>surface := g'\<rparr>" and
    r: "\<forall>m \<in> set ?sent. tag m < nat (lsize (master w)) \<and> tag m < length (surface (master w)) \<longrightarrow>
          g' ! tag m = payload m"
    by blast
  from m have "tag m \<in> set (map tag ?sent)" by simp
  then have "tag m < length (slaves w) * nat (rows_per_slave G)"
    unfolding sent_tags [OF rps] by simp
  with fit shape have "tag m < nat (lsize (master w)) \<and> tag m < length (surface (master w))"
    by simp
  moreover from r m have "tag m < nat (lsize (master w)) \<and> tag m < length (surface (master w)) \<longrightarrow>
          g' ! tag m = payload m"
    by (rule bspec)
  ultimately have "g' ! tag m = payload m" by (rule rev_mp)
  then show ?thesis by (simp add: g)
qed

lemma sweep_order_irrelevant:
  assumes empty: "inflight w = []"
    and rps: "0 \<le> rows_per_slave G"
    and fair: "\<And>ms. mset (arrive i ms) = mset ms"
    and fair': "\<And>ms. mset (arrive' i ms) = mset ms"
    and fit: "length (slaves w) * nat (rows_per_slave G) \<le> nat (lsize (master w))"
    and shape: "length (surface (master w)) = nat (lsize (master w))"
  shows "sweep M G arrive' i w = sweep M G arrive i w"
proof (cases "length (slaves w) * nat (rows_per_slave G) < nat (lsize (master w))")
  case True
  have "sweep M G arrive i w = None"
    using empty rps fair True by (intro sweep_blocks) auto
  moreover have "sweep M G arrive' i w = None"
    using empty rps fair' True by (intro sweep_blocks) auto
  ultimately show ?thesis by simp
next
  case False
  with fit have cover: "nat (lsize (master w)) \<le> length (slaves w) * nat (rows_per_slave G)"
    by simp
  let ?sent = "concat (map snd (slaves_compute M G (slaves w)))"
  have "\<exists>w1. sweep M G arrive i w = Some w1"
    using empty rps fair cover by (intro sweep_returns) auto
  then obtain w1 where w1: "sweep M G arrive i w = Some w1" by blast
  have "\<exists>w2. sweep M G arrive' i w = Some w2"
    using empty rps fair' cover by (intro sweep_returns) auto
  then obtain w2 where w2: "sweep M G arrive' i w = Some w2" by blast
  from sweep_Some [OF w1 empty rps fair] obtain g1 where
    m1: "master w1 = (record_stats M i (master w))\<lparr>surface := g1\<rparr>" and
    l1: "length g1 = length (surface (master w))" and
    s1: "slaves w1 = map (recv_rows g1 \<circ> fst) (slaves_compute M G (slaves w))" and
    v1: "saved w1 = saved w"
    by blast
  from sweep_Some [OF w2 empty rps fair'] obtain g2 where
    m2: "master w2 = (record_stats M i (master w))\<lparr>surface := g2\<rparr>" and
    l2: "length g2 = length (surface (master w))" and
    s2: "slaves w2 = map (recv_rows g2 \<circ> fst) (slaves_compute M G (slaves w))" and
    v2: "saved w2 = saved w"
    by blast
  have "g1 = g2"
  proof (rule nth_equalityI)
    show "length g1 = length g2" using l1 l2 by simp
    fix y assume "y < length g1"
    with l1 shape cover have "y < length (slaves w) * nat (rows_per_slave G)" by simp
    then have "y \<in> set (map tag ?sent)" unfolding sent_tags [OF rps] by simp
    then obtain m where m: "m \<in> set ?sent" and t: "tag m = y" by auto
    from sweep_rows [OF w1 empty rps fair fit shape m] sweep_rows [OF w2 empty rps fair' fit shape m]
    show "g1 ! y = g2 ! y" by (simp add: m1 m2 t)
  qed
  moreover have "inflight w1 = []" by (rule sweep_keeps(1) [OF w1 empty rps fair fit])
  moreover have "inflight w2 = []" by (rule sweep_keeps(1) [OF w2 empty rps fair' fit])
  ultimately have "w2 = w1"
    using m1 m2 s1 s2 v1 v2 by (intro world.equality) simp_all
  with w1 w2 show ?thesis by simp
qed

lemma sweep_own_rows:
  assumes s: "sweep M G arrive i w = Some w'"
    and empty: "inflight w = []"
    and rps: "0 \<le> rows_per_slave G"
    and fair: "\<And>ms. mset (arrive i ms) = mset ms"
    and fit: "length (slaves w) * nat (rows_per_slave G) \<le> nat (lsize (master w))"
    and shape: "length (surface (master w)) = nat (lsize (master w))"
    and local: "row_local M"
    and r: "1 \<le> r" "r \<le> length (slaves w)"
    and y: "(r - 1) * nat (rows_per_slave G) \<le> y" "y < r * nat (rows_per_slave G)"
  shows "surface (master w') ! y = surface (fst (slave_sweep M G r (slaves w ! (r - 1)))) ! y"
proof -
  let ?l = "slaves w ! (r - 1)"
  let ?js = "[(r - 1) * nat (rows_per_slave G)..<r * nat (rows_per_slave G)]"
  have e: "slave_sweep M G r ?l = slave_rows M r ?js ?l"
    by (rule slave_sweep_eq [OF r(1) rps])
  have "y \<in> set (map tag (snd (slave_rows M r ?js ?l)))"
    unfolding slave_rows_tags using y by simp
  then obtain m where m: "m \<in> set (snd (slave_rows M r ?js ?l))" and t: "tag m = y"
    by auto
  have p: "payload m = surface (fst (slave_rows M r ?js ?l)) ! tag m"
    by (rule slave_rows_payload [OF local distinct_upt m])
  from r have "r - 1 < length (slaves w)" "Suc (r - 1) = r" by simp_all
  with m e have "\<exists>i < length (slaves w). m \<in> set (snd (slave_sweep M G (Suc i) (slaves w ! i)))"
    by auto
  then have "m \<in> set (concat (map snd (slaves_compute M G (slaves w))))"
    unfolding sent_by .
  from sweep_rows [OF s empty rps fair fit shape this] p t e show ?thesis by simp
qed

text \<open>
  C5. In the gather phase every row travels under its row index as tag, and rank 0
  stores what it receives under tag \<open>y\<close> in row \<open>y\<close>, whoever sent it. For a group as
  \<^verbatim>\<open>main\<close> sets it up, the outcome of a sweep is the same for every order of arrival.
  The gather completes whenever the ranges of the ranks make up the lattice. When it
  has completed, the tags of the messages sent are \<open>0, .., size - 1\<close>, each once, every
  message's row stands at the position of its tag, and, \<^verbatim>\<open>calculate_spin\<close> writing to
  the addressed row only, every row of the range of a rank equals that row of the
  rank's own lattice after its updates; no row is left untouched and no message is
  left over.
\<close>

theorem gather_reassembles:
  assumes empty: "inflight w = []"
    and rps: "0 \<le> rows_per_slave G"
    and fair: "\<And>ms. mset (arrive i ms) = mset ms"
    and fair': "\<And>ms. mset (arrive' i ms) = mset ms"
    and fit: "length (slaves w) * nat (rows_per_slave G) \<le> nat (lsize (master w))"
    and shape: "length (surface (master w)) = nat (lsize (master w))"
  shows "sweep M G arrive' i w = sweep M G arrive i w \<and>
         (length (slaves w) * nat (rows_per_slave G) = nat (lsize (master w)) \<longrightarrow>
            (\<exists>w'. sweep M G arrive i w = Some w')) \<and>
         (\<forall>w'. sweep M G arrive i w = Some w' \<longrightarrow>
            length (surface (master w')) = nat (lsize (master w)) \<and>
            map tag (concat (map snd (slaves_compute M G (slaves w)))) =
              [0..<nat (lsize (master w))] \<and>
            (\<forall>m \<in> set (concat (map snd (slaves_compute M G (slaves w)))).
               surface (master w') ! tag m = payload m) \<and>
            (row_local M \<longrightarrow>
               (\<forall>r y. 1 \<le> r \<and> r \<le> length (slaves w) \<and>
                      (r - 1) * nat (rows_per_slave G) \<le> y \<and> y < r * nat (rows_per_slave G) \<longrightarrow>
                  surface (master w') ! y =
                    surface (fst (slave_sweep M G r (slaves w ! (r - 1)))) ! y)) \<and>
            inflight w' = [])"
proof (intro conjI allI impI ballI)
  show "sweep M G arrive' i w = sweep M G arrive i w"
    using empty rps fair fair' fit shape by (intro sweep_order_irrelevant) auto
next
  assume "length (slaves w) * nat (rows_per_slave G) = nat (lsize (master w))"
  then show "\<exists>w'. sweep M G arrive i w = Some w'"
    using empty rps fair by (intro sweep_returns) auto
next
  fix w' assume s: "sweep M G arrive i w = Some w'"
  from sweep_Some [OF s empty rps fair] obtain g' where
    "master w' = (record_stats M i (master w))\<lparr>surface := g'\<rparr>"
    "length g' = length (surface (master w))"
    by blast
  with shape show "length (surface (master w')) = nat (lsize (master w))" by simp
  show "map tag (concat (map snd (slaves_compute M G (slaves w)))) = [0..<nat (lsize (master w))]"
    unfolding sent_tags [OF rps] sweep_keeps(5) [OF s empty rps fair fit] ..
  show "inflight w' = []" by (rule sweep_keeps(1) [OF s empty rps fair fit])
  { fix m assume "m \<in> set (concat (map snd (slaves_compute M G (slaves w))))"
    then show "surface (master w') ! tag m = payload m"
      by (rule sweep_rows [OF s empty rps fair fit shape]) }
  { fix r y
    assume "row_local M"
      and "1 \<le> r \<and> r \<le> length (slaves w) \<and>
           (r - 1) * nat (rows_per_slave G) \<le> y \<and> y < r * nat (rows_per_slave G)"
    then show "surface (master w') ! y = surface (fst (slave_sweep M G r (slaves w ! (r - 1)))) ! y"
      by (intro sweep_own_rows [OF s empty rps fair fit shape]) simp_all }
qed

theorem gather_reassembles_witness:
  "inflight ex_world = [] \<and> 0 \<le> rows_per_slave ex_G \<and>
   (\<forall>ms. mset (in_order 0 ms) = mset ms) \<and> (\<forall>ms. mset (reversed 0 ms) = mset ms) \<and>
   length (slaves ex_world) * nat (rows_per_slave ex_G) \<le> nat (lsize (master ex_world)) \<and>
   length (surface (master ex_world)) = nat (lsize (master ex_world)) \<and>
   sweep (spec_methods ex_draws) ex_G reversed 0 ex_world = Some ex_world_after \<and>
   surface (master ex_world_after) ! 0 =
     surface (fst (slave_sweep (spec_methods ex_draws) ex_G 1 (uniform2 1))) ! 0 \<and>
   surface (master ex_world_after) ! 1 =
     surface (fst (slave_sweep (spec_methods ex_draws) ex_G 2 (uniform2 2))) ! 1 \<and>
   surface (master ex_world_after) = [[- 1, - 1], [1, 1]]"
proof -
  let ?M = "spec_methods ex_draws"
  have h1: "inflight ex_world = []" by (simp add: ex_world_def)
  have h2: "0 \<le> rows_per_slave ex_G" by (simp add: ex_G_def)
  have h3: "mset (in_order 0 ms) = mset ms" for ms by (simp add: in_order_def)
  have h4: "mset (reversed 0 ms) = mset ms" for ms by (simp add: reversed_def)
  have h5: "length (slaves ex_world) * nat (rows_per_slave ex_G) \<le> nat (lsize (master ex_world))"
    by (simp add: ex_world_def ex_G_def uniform2_def zeroed_def)
  have h6: "length (surface (master ex_world)) = nat (lsize (master ex_world))"
    by (simp add: ex_world_def uniform2_def zeroed_def)
  note g = gather_reassembles [of ex_world ex_G in_order 0 reversed ?M, OF h1 h2 h3 h4 h5 h6]
  from g [THEN conjunct1] have a: "sweep ?M ex_G reversed 0 ex_world = Some ex_world_after"
    by (simp add: ex_sweep)
  note u = g [THEN conjunct2, THEN conjunct2, THEN spec, THEN mp, OF ex_sweep]
  note rows = u [THEN conjunct2, THEN conjunct2, THEN conjunct2, THEN conjunct1, THEN mp,
    OF spec_row_local]
  have s: "slaves ex_world ! 0 = uniform2 1" "slaves ex_world ! Suc 0 = uniform2 2"
    "length (slaves ex_world) = 2" "nat (rows_per_slave ex_G) = 1"
    by (simp_all add: ex_world_def ex_G_def)
  from rows [THEN spec, THEN spec, of 1 0]
  have b: "surface (master ex_world_after) ! 0 =
     surface (fst (slave_sweep ?M ex_G 1 (uniform2 1))) ! 0"
    by (simp add: s)
  from rows [THEN spec, THEN spec, of 2 1]
  have c: "surface (master ex_world_after) ! 1 =
     surface (fst (slave_sweep ?M ex_G 2 (uniform2 2))) ! 1"
    by (simp add: s)
  have d: "surface (master ex_world_after) = [[- 1, - 1], [1, 1]]"
    by (simp add: ex_world_after_def)
  from h1 h2 h3 h4 h5 h6 a b c d show ?thesis by blast
qed

section \<open>The copies of the other ranks\<close>

lemma fold_update_prefix:
  assumes "k \<le> length a" and "length b = length a"
  shows "fold (\<lambda>y g. g[y := b ! y]) [0..<k] a = take k b @ drop k a"
  using assms(1)
proof (induction k)
  case 0
  then show ?case by simp
next
  case (Suc k)
  then have k: "k < length a" by simp
  have "fold (\<lambda>y g. g[y := b ! y]) [0..<Suc k] a = (take k b @ drop k a)[k := b ! k]"
    using Suc by simp
  also have "\<dots> = take k b @ (drop k a)[0 := b ! k]"
    using k assms(2) by (simp add: list_update_append)
  also have "(drop k a)[0 := b ! k] = b ! k # drop (Suc k) a"
    using k by (simp add: Cons_nth_drop_Suc [symmetric])
  also have "take k b @ b ! k # drop (Suc k) a = take (Suc k) b @ drop (Suc k) a"
    using k assms(2) by (simp add: take_Suc_conv_app_nth)
  finally show ?case .
qed

lemma recv_rows_copies:
  assumes "length (surface l) = nat (lsize l)" and "length mg = nat (lsize l)"
  shows "surface (recv_rows mg l) = mg"
  using fold_update_prefix [of "nat (lsize l)" "surface l" mg] assms
  by (simp add: recv_rows_def)

text \<open>
  When \<^verbatim>\<open>simulate\<close> is entered, every rank but 0 holds the cells that rank 0 had after its
  constructor, and rank 0 holds what \<^verbatim>\<open>clear\<close> has made of them.
\<close>

lemma entry_copies:
  assumes "\<And>r. lsize (new_lattice M a r) = rows_arg a"
    and "\<And>r. length (surface (new_lattice M a r)) = nat (rows_arg a)"
  shows "\<forall>l \<in> set (slaves (clear_and_save M (master_to_slaves_sync (group M ws a)))).
           surface l = surface (new_lattice M a 0)"
    and "surface (master (clear_and_save M (master_to_slaves_sync (group M ws a)))) =
           fst (clear M (new_lattice M a 0))"
proof -
  have "surface (recv_rows (surface (new_lattice M a 0)) (new_lattice M a r)) =
      surface (new_lattice M a 0)" for r
    by (rule recv_rows_copies) (simp_all add: assms)
  then show "\<forall>l \<in> set (slaves (clear_and_save M (master_to_slaves_sync (group M ws a)))).
           surface l = surface (new_lattice M a 0)"
    by (auto simp: master_to_slaves_sync_def group_def)
  show "surface (master (clear_and_save M (master_to_slaves_sync (group M ws a)))) =
           fst (clear M (new_lattice M a 0))"
    by (simp add: master_to_slaves_sync_def group_def do_clear_def split_beta)
qed

text \<open>
  A completed sweep ends with \<^verbatim>\<open>master_to_slaves_sync\<close>: when \<^verbatim>\<open>calculate_spin\<close> keeps
  the number of rows and every lattice has as many rows as its \<^verbatim>\<open>size\<close> says, every
  rank starts the next sweep with the cells of rank 0.
\<close>

lemma fold_do_spin_rows:
  assumes "\<And>c l. length (fst (calculate_spin M c l)) = length (surface l)"
  shows "length (surface (fold (do_spin M) cs l)) = length (surface l)"
proof (induction cs arbitrary: l)
  case Nil
  then show ?case by simp
next
  case (Cons c cs)
  have "length (surface (do_spin M c l)) = length (surface l)"
    using assms [of c l] by (simp add: do_spin_def split_beta)
  with Cons.IH [of "do_spin M c l"] show ?case by simp
qed

lemma sweep_synchronises:
  assumes s: "sweep M G arrive i w = Some w'"
    and empty: "inflight w = []"
    and rps: "0 \<le> rows_per_slave G"
    and fair: "\<And>ms. mset (arrive i ms) = mset ms"
    and keeps: "\<And>c l. length (fst (calculate_spin M c l)) = length (surface l)"
    and shape: "length (surface (master w)) = nat (lsize (master w))"
    and shapes: "\<forall>l \<in> set (slaves w). lsize l = lsize (master w) \<and> length (surface l) = nat (lsize l)"
  shows "\<forall>l \<in> set (slaves w'). surface l = surface (master w')"
proof -
  from sweep_Some [OF s empty rps fair] obtain g' where
    m: "master w' = (record_stats M i (master w))\<lparr>surface := g'\<rparr>" and
    lg: "length g' = length (surface (master w))" and
    sl: "slaves w' = map (recv_rows g' \<circ> fst) (slaves_compute M G (slaves w))"
    by blast
  have "surface (recv_rows g' (fst p)) = g'" if p: "p \<in> set (slaves_compute M G (slaves w))" for p
  proof -
    from p obtain q where q: "q \<in> set (enumerate 1 (slaves w))" and
      e': "p = slave_sweep M G (fst q) (snd q)"
      by (auto simp: slaves_compute_def)
    from q have "1 \<le> fst q" "fst q - 1 < length (slaves w)" "slaves w ! (fst q - 1) = snd q"
      by (auto simp: in_set_enumerate_eq)
    then have "snd q \<in> set (slaves w)" "1 \<le> fst q"
      using nth_mem [of "fst q - 1" "slaves w"] by simp_all
    with e' obtain r l where l: "l \<in> set (slaves w)" and r: "1 \<le> r" and e: "p = slave_sweep M G r l"
      by blast
    have f: "fst p = fold (do_spin M) (cells_of (nat (lsize l))
        [(r - 1) * nat (rows_per_slave G)..<r * nat (rows_per_slave G)]) l"
      unfolding e slave_sweep_eq [OF r rps] by (rule slave_rows_fold)
    from l shapes have "lsize l = lsize (master w)" "length (surface l) = nat (lsize l)"
      by auto
    then have "length (surface (fst p)) = nat (lsize (fst p))" "length g' = nat (lsize (fst p))"
      unfolding f using fold_do_spin_rows [OF keeps] lg shape by simp_all
    then show ?thesis by (rule recv_rows_copies)
  qed
  then show ?thesis by (auto simp: sl m)
qed

end
